theory Spec2Isabelle
  imports Main "HOL-Library.Word"
begin

section \<open>The registry generators of delve-plugins\<close>

text \<open>
  The repository holds two variants of one script:
  \<^verbatim>\<open>.github/scripts/generate-registry.py\<close> (functions suffixed \<open>_gen\<close> below) and
  \<^verbatim>\<open>.github/scripts/simple-registry-generator.py\<close> (functions suffixed \<open>_simple\<close>).
  Both walk the working directory, read one manifest per plugin directory, look for
  platform binaries in every release directory, and write \<^verbatim>\<open>registry.yml\<close>,
  \<^verbatim>\<open>api/plugins.json\<close> and one file \<^verbatim>\<open>api/plugins/<id>\<close> per plugin.
\<close>

subsection \<open>Python values and errors\<close>

type_synonym bytes = "8 word list"

text \<open>A \<^verbatim>\<open>pathlib.Path\<close> is the list of the parts joined so far; \<^verbatim>\<open>Path('.')\<close> is the empty list.\<close>

type_synonym path = "string list"

text \<open>
  What \<^verbatim>\<open>json.load\<close> returns. A \<^verbatim>\<open>dict\<close> is the list of its items in insertion order;
  numbers are integers (a manifest number is only tested for truth or passed through).
\<close>

datatype json =
    JNull
  | JBool bool
  | JNum int
  | JStr string
  | JArr "json list"
  | JObj "(string \<times> json) list"

datatype error = KeyError | TypeError | AttributeError | ValueError | OSError | JSONDecodeError

fun and_then :: "error + 'a \<Rightarrow> ('a \<Rightarrow> error + 'b) \<Rightarrow> error + 'b" where
  "and_then (Inl e) f = Inl e"
| "and_then (Inr x) f = f x"

text \<open>\<^verbatim>\<open>v[k]\<close> with a string key: only a dict can be indexed so.\<close>

fun getitem :: "json \<Rightarrow> string \<Rightarrow> error + json" where
  "getitem (JObj kvs) k = (case map_of kvs k of None \<Rightarrow> Inl KeyError | Some v \<Rightarrow> Inr v)"
| "getitem _ k = Inl TypeError"

text \<open>\<^verbatim>\<open>v.get(k, d)\<close>: only a dict has the method.\<close>

fun dict_get :: "json \<Rightarrow> string \<Rightarrow> json \<Rightarrow> error + json" where
  "dict_get (JObj kvs) k d = Inr (case map_of kvs k of None \<Rightarrow> d | Some v \<Rightarrow> v)"
| "dict_get _ k d = Inl AttributeError"

text \<open>The truth value of \<^verbatim>\<open>if v:\<close>.\<close>

fun truthy :: "json \<Rightarrow> bool" where
  "truthy JNull = False"
| "truthy (JBool b) = b"
| "truthy (JNum n) = (n \<noteq> 0)"
| "truthy (JStr s) = (s \<noteq> [])"
| "truthy (JArr xs) = (xs \<noteq> [])"
| "truthy (JObj kvs) = (kvs \<noteq> [])"

text \<open>\<^verbatim>\<open>for x in v\<close>: a list gives its elements, a string its characters, a dict its keys.\<close>

fun py_iter :: "json \<Rightarrow> error + json list" where
  "py_iter (JArr xs) = Inr xs"
| "py_iter (JStr s) = Inr (map (\<lambda>c. JStr [c]) s)"
| "py_iter (JObj kvs) = Inr (map (\<lambda>kv. JStr (fst kv)) kvs)"
| "py_iter _ = Inl TypeError"

text \<open>\<^verbatim>\<open>s.split(sep)\<close> for a one-character separator.\<close>

fun split_on :: "char \<Rightarrow> string \<Rightarrow> string list" where
  "split_on c [] = [[]]"
| "split_on c (x # xs) =
     (if x = c then [] # split_on c xs
      else (case split_on c xs of [] \<Rightarrow> [[x]] | p # ps \<Rightarrow> (x # p) # ps))"

text \<open>\<^verbatim>\<open>d[k] = v\<close> on a dict: a key already there keeps its place.\<close>

fun dict_set :: "'k \<Rightarrow> 'v \<Rightarrow> ('k \<times> 'v) list \<Rightarrow> ('k \<times> 'v) list" where
  "dict_set k v [] = [(k, v)]"
| "dict_set k v (kv # kvs) = (if fst kv = k then (k, v) # kvs else kv # dict_set k v kvs)"

text \<open>Comparison of two \<^verbatim>\<open>str\<close>: lexicographic on the code units.\<close>

fun str_less :: "string \<Rightarrow> string \<Rightarrow> bool" where
  "str_less [] [] = False"
| "str_less [] (y # ys) = True"
| "str_less (x # xs) [] = False"
| "str_less (x # xs) (y # ys) =
     ((of_char x :: nat) < of_char y \<or> (x = y \<and> str_less xs ys))"

text \<open>
  \<^verbatim>\<open>xs.sort(key=key, reverse=True)\<close>: the list is reversed, sorted stably in ascending
  order of the key, and reversed again, so equal keys keep their order.
\<close>

fun py_insort :: "('a \<Rightarrow> string) \<Rightarrow> 'a \<Rightarrow> 'a list \<Rightarrow> 'a list" where
  "py_insort key x [] = [x]"
| "py_insort key x (y # ys) =
     (if str_less (key y) (key x) then y # py_insort key x ys else x # y # ys)"

definition sort_reverse :: "('a \<Rightarrow> string) \<Rightarrow> 'a list \<Rightarrow> 'a list" where
  "sort_reverse key xs = rev (foldr (py_insort key) (rev xs) [])"

text \<open>\<^verbatim>\<open>str(n)\<close> for a length.\<close>

fun digits_of :: "nat \<Rightarrow> string \<Rightarrow> string" where
  "digits_of n acc =
     (if n < 10 then char_of (48 + n) # acc
      else digits_of (n div 10) (char_of (48 + n mod 10) # acc))"

definition str_of_nat :: "nat \<Rightarrow> string" where
  "str_of_nat n = digits_of n []"

subsection \<open>The world outside the scripts\<close>

text \<open>
  The file system and the library functions the scripts call. Paths are read by the
  operating system, so what a path names is a field of the world, not computed here.
  \<^item> \<open>listdir p\<close>: the entry names of \<^verbatim>\<open>os.listdir\<close> / \<^verbatim>\<open>Path.iterdir\<close> in the order the
    system gives them, \<open>None\<close> where the call raises;
  \<^item> \<open>is_dir\<close>, \<open>path_exists\<close>: \<^verbatim>\<open>Path.is_dir\<close>, \<^verbatim>\<open>Path.exists\<close>;
  \<^item> \<open>read_bytes p\<close>: the content \<^verbatim>\<open>open(p)\<close> reads, \<open>None\<close> where it raises;
  \<^item> \<open>mtime_iso p\<close>: \<^verbatim>\<open>datetime.fromtimestamp(p.stat().st_mtime).isoformat()\<close>;
  \<^item> \<open>json_loads\<close>: \<^verbatim>\<open>json.load\<close> on a file's content, \<open>None\<close> where it raises;
  \<^item> \<open>sha256\<close>: the SHA-256 digest of \<^verbatim>\<open>hashlib\<close>;
  \<^item> \<open>str_format pat plugin_name os arch\<close>: \<^verbatim>\<open>pat.format(plugin_name=.., os=.., arch=..)\<close>;
  \<^item> \<open>py_repr v\<close>: what an f-string writes for a value that is not a \<^verbatim>\<open>str\<close>.
\<close>

record world =
  listdir :: "path \<Rightarrow> string list option"
  is_dir :: "path \<Rightarrow> bool"
  path_exists :: "path \<Rightarrow> bool"
  read_bytes :: "path \<Rightarrow> bytes option"
  mtime_iso :: "path \<Rightarrow> string"
  json_loads :: "bytes \<Rightarrow> json option"
  sha256 :: "bytes \<Rightarrow> 256 word"
  str_format :: "string \<Rightarrow> json \<Rightarrow> string \<Rightarrow> string \<Rightarrow> error + string"
  py_repr :: "json \<Rightarrow> string"

text \<open>\<^verbatim>\<open>f"{v}"\<close>: a \<^verbatim>\<open>str\<close> is written as it is.\<close>

fun py_str :: "world \<Rightarrow> json \<Rightarrow> string" where
  "py_str W (JStr s) = s"
| "py_str W v = py_repr W v"

text \<open>\<^verbatim>\<open>p / v\<close>: a \<^verbatim>\<open>Path\<close> is joined with a \<^verbatim>\<open>str\<close> only.\<close>

fun path_join :: "path \<Rightarrow> json \<Rightarrow> error + path" where
  "path_join p (JStr s) = Inr (p @ [s])"
| "path_join p _ = Inl TypeError"

subsection \<open>calculate_checksum (both variants)\<close>

text \<open>
  \<^verbatim>\<open>iter(lambda: f.read(4096), b"")\<close>: the chunks of at most 4096 bytes read until a
  read returns nothing.
\<close>

function read_chunks :: "bytes \<Rightarrow> bytes list" where
  "read_chunks bs =
     (if take 4096 bs = [] then [] else take 4096 bs # read_chunks (drop 4096 bs))"
  by pat_completeness auto
termination
  by (relation "measure length") (auto simp: take_eq_Nil)

declare read_chunks.simps [simp del]

text \<open>
  The hash object holds the bytes fed to it so far (\<^verbatim>\<open>update\<close> calls concatenate);
  \<^verbatim>\<open>hexdigest\<close> writes the 256-bit digest as 64 lower-case hexadecimal digits.
\<close>

definition sha_update :: "bytes \<Rightarrow> bytes \<Rightarrow> bytes" where
  "sha_update h chunk = h @ chunk"

definition hex_digit :: "nat \<Rightarrow> char" where
  "hex_digit n = ''0123456789abcdef'' ! n"

text \<open>The last \<open>k\<close> hexadecimal digits of \<open>n\<close>, most significant first, before \<open>acc\<close>.\<close>

fun hex_digits :: "nat \<Rightarrow> int \<Rightarrow> string \<Rightarrow> string" where
  "hex_digits 0 n acc = acc"
| "hex_digits (Suc k) n acc = hex_digits k (n div 16) (hex_digit (nat (n mod 16)) # acc)"

definition hex_of_digest :: "256 word \<Rightarrow> string" where
  "hex_of_digest d = hex_digits 64 (uint d) []"

definition hexdigest :: "world \<Rightarrow> bytes \<Rightarrow> string" where
  "hexdigest W h = hex_of_digest (sha256 W h)"

definition calculate_checksum :: "world \<Rightarrow> path \<Rightarrow> error + string" where
  "calculate_checksum W file_path =
     (case read_bytes W file_path of
        None \<Rightarrow> Inl OSError
      | Some bs \<Rightarrow> Inr (hexdigest W (foldl sha_update [] (read_chunks bs))))"

subsection \<open>The records the scripts build\<close>

record asset =
  asset_url :: string
  asset_checksum :: string
  asset_size :: nat

record frontend_block =
  frontend_entry :: json
  frontend_checksum :: string

record metadata_ref =
  metadata_url :: string
  metadata_checksum :: string

text \<open>
  The \<^verbatim>\<open>frontend\<close> key of a version entry: generate-registry.py always sets it, to a
  block or to \<^verbatim>\<open>None\<close>; simple-registry-generator.py sets it to a block or leaves the
  key out.
\<close>

datatype frontend_field = FrontendAbsent | FrontendNull | FrontendBlock frontend_block

record version_record =
  version :: string
  released :: string
  compatibility :: json
  assets :: "(string \<times> asset) list"
  frontend :: frontend_field
  plugin_metadata :: metadata_ref

record plugin_record =
  name :: json
  description :: json
  author :: json
  license :: json
  repository :: json
  homepage :: json
  tags :: json
  category :: json
  min_delve_version :: json
  versions :: "version_record list"

type_synonym plugin_map = "(string \<times> plugin_record) list"


text \<open>\<^verbatim>\<open>p.name\<close>: the last part, empty for \<^verbatim>\<open>Path('.')\<close>.\<close>

definition path_name :: "path \<Rightarrow> string" where
  "path_name p = (if p = [] then [] else last p)"

text \<open>\<^verbatim>\<open>p.stat().st_size\<close> of a file: the number of bytes it holds.\<close>

definition st_size :: "world \<Rightarrow> path \<Rightarrow> nat" where
  "st_size W p = (case read_bytes W p of None \<Rightarrow> 0 | Some bs \<Rightarrow> length bs)"

text \<open>\<^verbatim>\<open>plugin_data["info"][k]\<close> and \<^verbatim>\<open>plugin_data["info"].get(k, d)\<close>.\<close>

definition info_item :: "json \<Rightarrow> string \<Rightarrow> error + json" where
  "info_item plugin_data k = and_then (getitem plugin_data ''info'') (\<lambda>info. getitem info k)"

definition info_get :: "json \<Rightarrow> string \<Rightarrow> json \<Rightarrow> error + json" where
  "info_get plugin_data k d = and_then (getitem plugin_data ''info'') (\<lambda>info. dict_get info k d)"

subsection \<open>generate-registry.py: process_release\<close>

text \<open>Line 61: \<^verbatim>\<open>os_name, arch = platform.split("/")\<close>.\<close>

definition split_platform :: "json \<Rightarrow> error + string \<times> string" where
  "split_platform platform =
     (case platform of
        JStr s \<Rightarrow>
          (case split_on CHR ''/'' s of
             [os_name, arch] \<Rightarrow> Inr (os_name, arch)
           | _ \<Rightarrow> Inl ValueError)
      | _ \<Rightarrow> Inl AttributeError)"

text \<open>Lines 62 to 70: the file name expected for one platform.\<close>

definition binary_name_gen :: "world \<Rightarrow> json \<Rightarrow> string \<Rightarrow> string \<Rightarrow> error + string" where
  "binary_name_gen W plugin_data os_name arch =
     and_then (getitem plugin_data ''build'') (\<lambda>build.
     and_then (getitem build ''assets'') (\<lambda>build_assets.
     and_then (getitem build_assets ''binary'') (\<lambda>binary_pattern.
     (case binary_pattern of
        JStr pat \<Rightarrow>
          and_then (info_item plugin_data ''id'') (\<lambda>plugin_id.
          and_then (str_format W pat plugin_id os_name arch) (\<lambda>formatted.
          Inr (if os_name = ''windows'' then formatted @ ''.exe'' else formatted)))
      | _ \<Rightarrow> Inl AttributeError))))"

text \<open>One round of the loop over \<^verbatim>\<open>plugin_data["build"]["platforms"]\<close> (lines 60 to 78).\<close>

definition platform_step_gen ::
  "world \<Rightarrow> path \<Rightarrow> json \<Rightarrow> json \<Rightarrow> (string \<times> asset) list \<Rightarrow> error + (string \<times> asset) list" where
  "platform_step_gen W version_dir plugin_data platform acc =
     and_then (split_platform platform) (\<lambda>os_arch.
     and_then (binary_name_gen W plugin_data (fst os_arch) (snd os_arch)) (\<lambda>binary_name.
     if path_exists W (version_dir @ [binary_name]) then
       and_then (info_item plugin_data ''id'') (\<lambda>plugin_id.
       and_then (calculate_checksum W (version_dir @ [binary_name])) (\<lambda>digest.
       Inr (dict_set (fst os_arch @ ''-'' @ snd os_arch)
              \<lparr>asset_url = py_str W plugin_id @ ''/releases/'' @ path_name version_dir
                             @ ''/'' @ binary_name,
               asset_checksum = ''sha256:'' @ digest,
               asset_size = st_size W (version_dir @ [binary_name])\<rparr> acc)))
     else Inr acc))"

fun platform_loop_gen ::
  "world \<Rightarrow> path \<Rightarrow> json \<Rightarrow> json list \<Rightarrow> (string \<times> asset) list \<Rightarrow> error + (string \<times> asset) list" where
  "platform_loop_gen W version_dir plugin_data [] acc = Inr acc"
| "platform_loop_gen W version_dir plugin_data (platform # rest) acc =
     and_then (platform_step_gen W version_dir plugin_data platform acc)
       (platform_loop_gen W version_dir plugin_data rest)"

text \<open>
  Lines 81 to 89: \<open>frontend_checksum\<close> is the digest of the declared file, the word
  \<^verbatim>\<open>missing\<close> when the file is not there, and \<^verbatim>\<open>None\<close> when nothing is declared.
\<close>

definition frontend_checksum_gen :: "world \<Rightarrow> path \<Rightarrow> json \<Rightarrow> error + string option" where
  "frontend_checksum_gen W version_dir entry =
     (if truthy entry then
        and_then (path_join version_dir entry) (\<lambda>frontend_path.
        if path_exists W frontend_path then
          and_then (calculate_checksum W frontend_path) (\<lambda>digest. Inr (Some digest))
        else Inr (Some ''missing''))
      else Inr None)"

definition process_release_gen :: "world \<Rightarrow> path \<Rightarrow> json \<Rightarrow> error + version_record option" where
  "process_release_gen W version_dir plugin_data =
     and_then (getitem plugin_data ''build'') (\<lambda>build.
     and_then (getitem build ''platforms'') (\<lambda>platforms.
     and_then (py_iter platforms) (\<lambda>platform_list.
     and_then (platform_loop_gen W version_dir plugin_data platform_list []) (\<lambda>found.
     and_then (dict_get plugin_data ''frontend'' (JObj [])) (\<lambda>frontend_section.
     and_then (dict_get frontend_section ''entry'' JNull) (\<lambda>entry.
     and_then (frontend_checksum_gen W version_dir entry) (\<lambda>checksum.
     if found = [] then Inr None
     else
       and_then (getitem plugin_data ''compatibility'') (\<lambda>compat.
       and_then (getitem compat ''supported_versions'') (\<lambda>supported.
       and_then (info_item plugin_data ''id'') (\<lambda>plugin_id.
       and_then (path_join [] plugin_id) (\<lambda>id_dir.
       and_then (calculate_checksum W (id_dir @ [''plugin.json''])) (\<lambda>digest.
       Inr (Some
         \<lparr>version = path_name version_dir,
          released = mtime_iso W version_dir @ ''Z'',
          compatibility = supported,
          assets = found,
          frontend =
            (case checksum of
               None \<Rightarrow> FrontendNull
             | Some c \<Rightarrow>
                 if c = [] then FrontendNull
                 else FrontendBlock \<lparr>frontend_entry = entry, frontend_checksum = ''sha256:'' @ c\<rparr>),
          plugin_metadata =
            \<lparr>metadata_url = py_str W plugin_id @ ''/plugin.json'',
             metadata_checksum = ''sha256:'' @ digest\<rparr>\<rparr>)))))))))))))"

subsection \<open>generate-registry.py: process_plugin and scan_plugins\<close>

text \<open>The loop over \<^verbatim>\<open>releases_dir.iterdir()\<close> (lines 33 to 37).\<close>

fun release_loop_gen ::
  "world \<Rightarrow> path \<Rightarrow> json \<Rightarrow> string list \<Rightarrow> version_record list \<Rightarrow> error + version_record list" where
  "release_loop_gen W releases_dir plugin_data [] releases = Inr releases"
| "release_loop_gen W releases_dir plugin_data (n # ns) releases =
     (if is_dir W (releases_dir @ [n]) then
        and_then (process_release_gen W (releases_dir @ [n]) plugin_data) (\<lambda>release.
        release_loop_gen W releases_dir plugin_data ns
          (case release of None \<Rightarrow> releases | Some r \<Rightarrow> releases @ [r]))
      else release_loop_gen W releases_dir plugin_data ns releases)"

definition collect_releases_gen :: "world \<Rightarrow> path \<Rightarrow> json \<Rightarrow> error + version_record list" where
  "collect_releases_gen W plugin_dir plugin_data =
     (let releases_dir = plugin_dir @ [''releases'']
      in if path_exists W releases_dir then
           (case listdir W releases_dir of
              None \<Rightarrow> Inl OSError
            | Some ns \<Rightarrow> release_loop_gen W releases_dir plugin_data ns [])
         else Inr [])"

definition process_plugin_gen :: "world \<Rightarrow> path \<Rightarrow> json \<Rightarrow> error + plugin_record" where
  "process_plugin_gen W plugin_dir plugin_data =
     and_then (collect_releases_gen W plugin_dir plugin_data) (\<lambda>releases.
     and_then (info_item plugin_data ''name'') (\<lambda>v_name.
     and_then (info_item plugin_data ''description'') (\<lambda>v_description.
     and_then (info_item plugin_data ''author'') (\<lambda>v_author.
     and_then (info_item plugin_data ''license'') (\<lambda>v_license.
     and_then (info_get plugin_data ''repository'' JNull) (\<lambda>v_repository.
     and_then (info_get plugin_data ''homepage'' JNull) (\<lambda>v_homepage.
     and_then (info_get plugin_data ''tags'' (JArr [])) (\<lambda>v_tags.
     and_then (info_get plugin_data ''category'' (JStr ''utilities'')) (\<lambda>v_category.
     and_then (getitem plugin_data ''compatibility'') (\<lambda>compat.
     and_then (getitem compat ''min_delve_version'') (\<lambda>v_min.
     Inr \<lparr>name = v_name, description = v_description, author = v_author,
          license = v_license, repository = v_repository, homepage = v_homepage,
          tags = v_tags, category = v_category, min_delve_version = v_min,
          versions = sort_reverse version releases\<rparr>)))))))))))"

text \<open>The loop over \<^verbatim>\<open>Path(".").iterdir()\<close> (lines 17 to 23).\<close>

fun scan_loop_gen :: "world \<Rightarrow> string list \<Rightarrow> plugin_map \<Rightarrow> error + plugin_map" where
  "scan_loop_gen W [] plugins = Inr plugins"
| "scan_loop_gen W (n # ns) plugins =
     (if is_dir W [n] \<and> n \<noteq> ''.github'' then
        if path_exists W [n, ''plugin.json''] then
          (case read_bytes W [n, ''plugin.json''] of
             None \<Rightarrow> Inl OSError
           | Some bs \<Rightarrow>
               (case json_loads W bs of
                  None \<Rightarrow> Inl JSONDecodeError
                | Some plugin_data \<Rightarrow>
                    and_then (process_plugin_gen W [n] plugin_data) (\<lambda>r.
                    scan_loop_gen W ns (dict_set n r plugins))))
        else scan_loop_gen W ns plugins
      else scan_loop_gen W ns plugins)"

definition scan_plugins_gen :: "world \<Rightarrow> error + plugin_map" where
  "scan_plugins_gen W =
     (case listdir W [] of None \<Rightarrow> Inl OSError | Some ns \<Rightarrow> scan_loop_gen W ns [])"


subsection \<open>simple-registry-generator.py: process_version\<close>

text \<open>
  The functions of this variant print progress lines; each returns the lines it printed
  with its result. \<open>process_version_simple\<close> prints only on its two normal returns.
\<close>

definition platforms_simple :: "string list" where
  "platforms_simple =
     [''darwin-amd64'', ''darwin-arm64'', ''linux-amd64'', ''linux-arm64'', ''windows-amd64'']"

text \<open>One round of the loop over the fixed platform list (lines 81 to 92).\<close>

definition platform_step_simple ::
  "world \<Rightarrow> path \<Rightarrow> json \<Rightarrow> string \<Rightarrow> (string \<times> asset) list \<Rightarrow> error + (string \<times> asset) list" where
  "platform_step_simple W version_dir plugin_id platform acc =
     (let base = py_str W plugin_id @ ''-'' @ platform;
          binary_name = (if platform = ''windows-amd64'' then base @ ''.exe'' else base);
          binary_path = version_dir @ [binary_name]
      in if path_exists W binary_path then
           and_then (calculate_checksum W binary_path) (\<lambda>digest.
           Inr (dict_set platform
                  \<lparr>asset_url = py_str W plugin_id @ ''/releases/'' @ path_name version_dir
                                 @ ''/'' @ binary_name,
                   asset_checksum = ''sha256:'' @ digest,
                   asset_size = st_size W binary_path\<rparr> acc))
         else Inr acc)"

fun platform_loop_simple ::
  "world \<Rightarrow> path \<Rightarrow> json \<Rightarrow> string list \<Rightarrow> (string \<times> asset) list \<Rightarrow> error + (string \<times> asset) list" where
  "platform_loop_simple W version_dir plugin_id [] acc = Inr acc"
| "platform_loop_simple W version_dir plugin_id (platform # rest) acc =
     and_then (platform_step_simple W version_dir plugin_id platform acc)
       (platform_loop_simple W version_dir plugin_id rest)"

text \<open>Lines 107 to 113: the block is added when \<^verbatim>\<open>component.js\<close> is there.\<close>

definition frontend_simple :: "world \<Rightarrow> path \<Rightarrow> error + frontend_field" where
  "frontend_simple W version_dir =
     (let frontend_file = version_dir @ [''component.js'']
      in if path_exists W frontend_file then
           and_then (calculate_checksum W frontend_file) (\<lambda>digest.
           Inr (FrontendBlock \<lparr>frontend_entry = JStr ''component.js'',
                               frontend_checksum = ''sha256:'' @ digest\<rparr>))
         else Inr FrontendAbsent)"

definition process_version_simple ::
  "world \<Rightarrow> path \<Rightarrow> json \<Rightarrow> error + (string list \<times> version_record option)" where
  "process_version_simple W version_dir plugin_data =
     and_then (info_item plugin_data ''id'') (\<lambda>plugin_id.
     and_then (platform_loop_simple W version_dir plugin_id platforms_simple []) (\<lambda>found.
     if found = [] then
       Inr ([''  No binaries found for '' @ path_name version_dir], None)
     else
       and_then (dict_get plugin_data ''compatibility'' (JArr [JStr ''v0.1.0'', JStr ''v0.2.0''])) (\<lambda>compat.
       and_then (frontend_simple W version_dir) (\<lambda>fe.
       and_then (path_join [] plugin_id) (\<lambda>id_dir.
       and_then (calculate_checksum W (id_dir @ [''plugin.json''])) (\<lambda>digest.
       Inr ([''  Found version '' @ path_name version_dir @ '' with ''
               @ str_of_nat (length found) @ '' platform(s)''],
            Some
              \<lparr>version = path_name version_dir,
               released = mtime_iso W version_dir @ ''Z'',
               compatibility = compat,
               assets = found,
               frontend = fe,
               plugin_metadata =
                 \<lparr>metadata_url = py_str W plugin_id @ ''/plugin.json'',
                  metadata_checksum = ''sha256:'' @ digest\<rparr>\<rparr>)))))))"

subsection \<open>simple-registry-generator.py: scan_plugins\<close>

text \<open>
  The loop over \<^verbatim>\<open>releases_dir.iterdir()\<close> (lines 47 to 51): the lines printed so far
  come back also when a call raises.
\<close>

fun version_loop_simple ::
  "world \<Rightarrow> path \<Rightarrow> json \<Rightarrow> string list \<Rightarrow> string list \<Rightarrow> version_record list
     \<Rightarrow> string list \<times> (error + version_record list)" where
  "version_loop_simple W releases_dir plugin_data [] out vs = (out, Inr vs)"
| "version_loop_simple W releases_dir plugin_data (n # ns) out vs =
     (if is_dir W (releases_dir @ [n]) then
        (case process_version_simple W (releases_dir @ [n]) plugin_data of
           Inl e \<Rightarrow> (out, Inl e)
         | Inr (printed, version_data) \<Rightarrow>
             version_loop_simple W releases_dir plugin_data ns (out @ printed)
               (case version_data of None \<Rightarrow> vs | Some v \<Rightarrow> vs @ [v]))
      else version_loop_simple W releases_dir plugin_data ns out vs)"

definition collect_versions_simple ::
  "world \<Rightarrow> path \<Rightarrow> json \<Rightarrow> string list \<Rightarrow> string list \<times> (error + version_record list)" where
  "collect_versions_simple W plugin_dir plugin_data out =
     (let releases_dir = plugin_dir @ [''releases'']
      in if path_exists W releases_dir then
           (case listdir W releases_dir of
              None \<Rightarrow> (out, Inl OSError)
            | Some ns \<Rightarrow> version_loop_simple W releases_dir plugin_data ns out [])
         else (out, Inr []))"

text \<open>Lines 57 to 68: the plugin record, built only when there are versions.\<close>

definition plugin_entry_simple :: "json \<Rightarrow> version_record list \<Rightarrow> error + plugin_record" where
  "plugin_entry_simple plugin_data vs =
     and_then (info_item plugin_data ''name'') (\<lambda>v_name.
     and_then (info_item plugin_data ''description'') (\<lambda>v_description.
     and_then (info_item plugin_data ''author'') (\<lambda>v_author.
     and_then (info_item plugin_data ''license'') (\<lambda>v_license.
     and_then (info_get plugin_data ''repository'' (JStr [])) (\<lambda>v_repository.
     and_then (info_get plugin_data ''homepage'' (JStr [])) (\<lambda>v_homepage.
     and_then (info_get plugin_data ''tags'' (JArr [])) (\<lambda>v_tags.
     and_then (info_get plugin_data ''category'' (JStr ''utilities'')) (\<lambda>v_category.
     and_then (info_get plugin_data ''min_delve_version'' (JStr ''v0.1.0'')) (\<lambda>v_min.
     Inr \<lparr>name = v_name, description = v_description, author = v_author,
          license = v_license, repository = v_repository, homepage = v_homepage,
          tags = v_tags, category = v_category, min_delve_version = v_min,
          versions = sort_reverse version vs\<rparr>)))))))))"

text \<open>\<^verbatim>\<open>item.startswith('.')\<close>.\<close>

definition starts_with_dot :: "string \<Rightarrow> bool" where
  "starts_with_dot s = (case s of [] \<Rightarrow> False | c # _ \<Rightarrow> c = CHR ''.'')"

text \<open>The loop over \<^verbatim>\<open>os.listdir('.')\<close> (lines 27 to 68).\<close>

fun scan_loop_simple ::
  "world \<Rightarrow> string list \<Rightarrow> string list \<Rightarrow> plugin_map \<Rightarrow> string list \<times> (error + plugin_map)" where
  "scan_loop_simple W [] out plugins = (out, Inr plugins)"
| "scan_loop_simple W (item # items) out plugins =
     (if \<not> is_dir W [item] \<or> starts_with_dot item then scan_loop_simple W items out plugins
      else if \<not> path_exists W [item, ''plugin.json''] then scan_loop_simple W items out plugins
      else
        (let out1 = out @ [''Processing plugin: '' @ item]
         in case read_bytes W [item, ''plugin.json''] of
              None \<Rightarrow> (out1, Inl OSError)
            | Some bs \<Rightarrow>
                (case json_loads W bs of
                   None \<Rightarrow> (out1, Inl JSONDecodeError)
                 | Some plugin_data \<Rightarrow>
                     (case collect_versions_simple W [item] plugin_data out1 of
                        (out2, Inl e) \<Rightarrow> (out2, Inl e)
                      | (out2, Inr vs) \<Rightarrow>
                          if vs \<noteq> [] then
                            (case plugin_entry_simple plugin_data vs of
                               Inl e \<Rightarrow> (out2, Inl e)
                             | Inr r \<Rightarrow> scan_loop_simple W items out2 (dict_set item r plugins))
                          else scan_loop_simple W items out2 plugins))))"

definition scan_plugins_simple :: "world \<Rightarrow> string list \<times> (error + plugin_map)" where
  "scan_plugins_simple W =
     (case listdir W [] of
        None \<Rightarrow> ([], Inl OSError)
      | Some items \<Rightarrow> scan_loop_simple W items [] [])"


subsection \<open>generate_registry (the same in both variants)\<close>

record registry_info =
  registry_name :: string
  registry_description :: string
  maintainer :: string
  registry_url :: string
  api_version :: string
  last_updated :: string

record stats_record =
  total_plugins :: nat
  total_versions :: nat
  most_popular :: "string list"

record registry_document =
  registry :: registry_info
  plugins :: plugin_map
  channels :: json
  categories :: json
  api :: json
  stats :: stats_record

definition registry_channels :: json where
  "registry_channels =
     JObj
      [(''stable'', JObj
          [(''description'', JStr ''Stable, production-ready releases''),
            (''include_prerelease'', JBool False),
            (''default'', JBool True)]),
        (''beta'', JObj
          [(''description'', JStr ''Beta releases for testing''),
            (''include_prerelease'', JBool True)]),
        (''development'', JObj
          [(''description'', JStr ''Latest development builds''),
            (''include_prerelease'', JBool True)])]"

definition registry_categories :: json where
  "registry_categories =
     JObj
      [(''data-tools'', JObj
          [(''name'', JStr ''Data Tools''),
            (''description'', JStr ''Plugins for data manipulation, formatting, and analysis'')]),
        (''development-tools'', JObj
          [(''name'', JStr ''Development Tools''),
            (''description'', JStr ''Plugins for software development workflows'')]),
        (''monitoring'', JObj
          [(''name'', JStr ''Monitoring & Analytics''),
            (''description'', JStr ''Plugins for monitoring systems and analyzing metrics'')]),
        (''utilities'', JObj
          [(''name'', JStr ''Utilities''),
            (''description'', JStr ''General purpose utility plugins'')])]"

definition registry_api :: json where
  "registry_api =
     JObj
      [(''base_url'', JStr ''https://raw.githubusercontent.com/PortableSheep/delve-registry/main''),
        (''endpoints'', JObj
          [(''registry_metadata'', JStr ''/registry.yml''),
            (''plugin_list'', JStr ''/api/plugins.json''),
            (''plugin_details'', JStr ''/api/plugins/{plugin_id}''),
            (''download_asset'', JStr ''/{plugin_id}/releases/{version}/{asset_name}''),
            (''plugin_metadata'', JStr ''/{plugin_id}/plugin.json'')])]"

text \<open>\<open>now\<close> is \<^verbatim>\<open>datetime.utcnow().isoformat()\<close> at the call.\<close>

definition generate_registry :: "string \<Rightarrow> plugin_map \<Rightarrow> registry_document" where
  "generate_registry now ps =
     \<lparr>registry =
        \<lparr>registry_name = ''Official Delve Plugin Registry'',
         registry_description = ''Central registry for Delve plugins'',
         maintainer = ''portablesheep'',
         registry_url = ''https://github.com/PortableSheep/delve-registry'',
         api_version = ''v1'',
         last_updated = now @ ''Z''\<rparr>,
      plugins = ps,
      channels = registry_channels,
      categories = registry_categories,
      api = registry_api,
      stats =
        \<lparr>total_plugins = length ps,
         total_versions = sum_list (map (\<lambda>p. length (versions (snd p))) ps),
         most_popular = map fst ps\<rparr>\<rparr>"

subsection \<open>generate_api_files (the same in both variants)\<close>

record discovery_entry =
  entry_id :: string
  entry_name :: json
  entry_description :: json
  entry_author :: json
  entry_category :: json
  entry_tags :: json
  latest_version :: "string option"
  entry_min_delve_version :: json

record discovery_document =
  plugin_list :: "discovery_entry list"
  total :: nat
  list_last_updated :: string

text \<open>
  The files a run writes, as the list of paths written with the document each holds;
  writing a path again replaces its content. The output directory is taken to be
  writable.
\<close>

datatype document =
    RegistryYml registry_document
  | PluginsJson discovery_document
  | PluginDetail plugin_record

type_synonym files = "(path \<times> document) list"

text \<open>The summary entry of one plugin; \<open>latest_version\<close> is \<open>None\<close> for JSON null.\<close>

definition summary_entry :: "string \<times> plugin_record \<Rightarrow> discovery_entry" where
  "summary_entry p =
     (case p of (plugin_id, plugin_data) \<Rightarrow>
        \<lparr>entry_id = plugin_id,
         entry_name = name plugin_data,
         entry_description = description plugin_data,
         entry_author = author plugin_data,
         entry_category = category plugin_data,
         entry_tags = tags plugin_data,
         latest_version =
           (case versions plugin_data of [] \<Rightarrow> None | latest # _ \<Rightarrow> Some (version latest)),
         entry_min_delve_version = min_delve_version plugin_data\<rparr>)"

definition write_detail :: "files \<Rightarrow> string \<times> plugin_record \<Rightarrow> files" where
  "write_detail fs p =
     (case p of (plugin_id, plugin_data) \<Rightarrow>
        dict_set [''api'', ''plugins'', plugin_id] (PluginDetail plugin_data) fs)"

definition generate_api_files :: "string \<Rightarrow> plugin_map \<Rightarrow> files \<Rightarrow> files" where
  "generate_api_files now ps fs =
     (let entries = map summary_entry ps;
          fs1 = dict_set [''api'', ''plugins.json'']
                  (PluginsJson \<lparr>plugin_list = entries, total = length entries,
                                 list_last_updated = now @ ''Z''\<rparr>) fs
      in foldl write_detail fs1 ps)"

subsection \<open>main\<close>

text \<open>
  A run returns the lines it printed and either the error that stopped it or the files
  it wrote; \<open>t1\<close> and \<open>t2\<close> are the clock readings of the two documents.
\<close>

definition main_gen :: "world \<Rightarrow> string \<Rightarrow> string \<Rightarrow> string list \<times> (error + files)" where
  "main_gen W t1 t2 =
     (case scan_plugins_gen W of
        Inl e \<Rightarrow> ([''Scanning plugins directory...''], Inl e)
      | Inr ps \<Rightarrow>
          ([''Scanning plugins directory...'',
            ''Found '' @ str_of_nat (length ps) @ '' plugins'']
           @ map (\<lambda>p. ''  - '' @ fst p @ '': '' @ str_of_nat (length (versions (snd p)))
                        @ '' versions'') ps
           @ [''Generating registry.yml...'', ''Generating API files...'',
              ''Registry generation complete!''],
           Inr (generate_api_files t2 ps
                  (dict_set [''registry.yml''] (RegistryYml (generate_registry t1 ps)) []))))"

text \<open>
  The progress lines of simple-registry-generator.py start with the bytes of a
  pictograph, kept as the source file has them.
\<close>

definition main_simple :: "world \<Rightarrow> string \<Rightarrow> string \<Rightarrow> string list \<times> (error + files)" where
  "main_simple W t1 t2 =
     (let line0 = [CHR 0xEF, CHR 0xA3, CHR 0xBF, CHR 0xC3, CHR 0xBC, CHR 0xC3, CHR 0xAE, CHR 0xC3, CHR 0xA7] @ '' Scanning for plugins...''
      in case scan_plugins_simple W of
           (out, Inl e) \<Rightarrow> (line0 # out, Inl e)
         | (out, Inr ps) \<Rightarrow>
             if ps = [] then
               (line0 # out @ [[CHR 0xE2, CHR 0x80, CHR 0x9A, CHR 0xC3, CHR 0xB9, CHR 0xC3, CHR 0xA5] @ '' No plugins found''], Inr [])
             else
               (line0 # out
                @ [[CHR 0xE2, CHR 0x80, CHR 0x9A, CHR 0xC3, CHR 0xBA, CHR 0xC3, CHR 0x96] @ '' Found '' @ str_of_nat (length ps) @ '' plugins'',
                   [CHR 0xEF, CHR 0xA3, CHR 0xBF, CHR 0xC3, CHR 0xBC, CHR 0xC3, CHR 0xAC, CHR 0xC3, CHR 0xB9] @ '' Generating registry.yml...'',
                   [CHR 0xEF, CHR 0xA3, CHR 0xBF, CHR 0xC3, CHR 0xBC, CHR 0xC3, CHR 0xAE, CHR 0xC3, CHR 0xA5] @ '' Generating API files...'',
                   [CHR 0xE2, CHR 0x80, CHR 0x9A, CHR 0xC3, CHR 0xBA, CHR 0xC3, CHR 0x96] @ '' Registry generation complete!'',
                   ''   - registry.yml: '' @ str_of_nat (length ps) @ '' plugins'',
                   ''   - api/plugins.json: discovery endpoint'',
                   ''   - api/plugins/*: individual plugin details''],
                Inr (generate_api_files t2 ps
                       (dict_set [''registry.yml''] (RegistryYml (generate_registry t1 ps)) []))))"

section \<open>Example trees\<close>

text \<open>
  Small worlds on which the functions are run below. A tree lists what each path names;
  a manifest file holds one byte, which \<open>json_loads\<close> maps to the manifest it stands
  for. The digest function of these worlds is a stand-in (the length of the input),
  and \<open>str_format\<close> knows the conventional pattern only; no statement below depends on
  either.
\<close>

datatype fs_entry = FsFile bytes | FsDir "string list"

definition example_world :: "(path \<times> fs_entry) list \<Rightarrow> (bytes \<times> json) list \<Rightarrow> world" where
  "example_world tree manifests =
     \<lparr>listdir = (\<lambda>p. case map_of tree p of Some (FsDir ns) \<Rightarrow> Some ns | _ \<Rightarrow> None),
      is_dir = (\<lambda>p. case map_of tree p of Some (FsDir ns) \<Rightarrow> True | _ \<Rightarrow> False),
      path_exists = (\<lambda>p. case map_of tree p of Some e \<Rightarrow> True | None \<Rightarrow> False),
      read_bytes = (\<lambda>p. case map_of tree p of Some (FsFile bs) \<Rightarrow> Some bs | _ \<Rightarrow> None),
      mtime_iso = (\<lambda>p. ''2024-05-01T12:00:00''),
      json_loads = map_of manifests,
      sha256 = (\<lambda>bs. of_nat (length bs)),
      str_format = (\<lambda>pat plugin_name os_name arch.
         if pat = ''{plugin_name}-{os}-{arch}''
         then Inr ((case plugin_name of JStr s \<Rightarrow> s | _ \<Rightarrow> ''None'') @ ''-'' @ os_name @ ''-'' @ arch)
         else Inl ValueError),
      py_repr = (\<lambda>v. ''None'')\<rparr>"

definition sample_manifest :: "string \<Rightarrow> (string \<times> json) list \<Rightarrow> json" where
  "sample_manifest plugin_id extra =
     JObj ([(''info'', JObj [(''id'', JStr plugin_id), (''name'', JStr ''Sample''),
                             (''description'', JStr ''A sample plugin''),
                             (''author'', JStr ''someone''), (''license'', JStr ''MIT'')]),
            (''compatibility'', JObj [(''min_delve_version'', JStr ''v0.1.0''),
                                      (''supported_versions'', JArr [JStr ''v0.1.0''])]),
            (''build'', JObj [(''platforms'', JArr [JStr ''linux/amd64'']),
                              (''assets'', JObj [(''binary'', JStr ''{plugin_name}-{os}-{arch}'')])])]
           @ extra)"

text \<open>A release directory with the files named, and a plugin directory with its releases.\<close>

definition release_tree :: "string \<Rightarrow> string \<times> string list \<Rightarrow> (path \<times> fs_entry) list" where
  "release_tree plugin_id r =
     ([plugin_id, ''releases'', fst r], FsDir (snd r))
     # map (\<lambda>f. ([plugin_id, ''releases'', fst r, f], FsFile [1, 2, 3])) (snd r)"

definition plugin_tree :: "string \<Rightarrow> bytes \<Rightarrow> (string \<times> string list) list \<Rightarrow> (path \<times> fs_entry) list" where
  "plugin_tree plugin_id manifest_bytes rs =
     [([plugin_id], FsDir [''plugin.json'', ''releases'']),
      ([plugin_id, ''plugin.json''], FsFile manifest_bytes),
      ([plugin_id, ''releases''], FsDir (map fst rs))]
     @ concat (map (release_tree plugin_id) rs)"

text \<open>One plugin with the three releases 1.2.0, 1.10.0 and 1.9.0, listed in that order.\<close>

definition world_three_versions :: world where
  "world_three_versions =
     example_world
       (([], FsDir [''sample-plugin''])
        # plugin_tree ''sample-plugin'' [7]
            [(''1.2.0'', [''sample-plugin-linux-amd64'']),
             (''1.10.0'', [''sample-plugin-linux-amd64'']),
             (''1.9.0'', [''sample-plugin-linux-amd64''])])
       [([7], sample_manifest ''sample-plugin'' [])]"

section \<open>Notions the claims use\<close>

text \<open>
  The directories each scanner goes into: generate-registry.py passes over
  \<^verbatim>\<open>.github\<close> only, simple-registry-generator.py over every name that starts with a
  dot.
\<close>

definition selected_gen :: "world \<Rightarrow> string \<Rightarrow> bool" where
  "selected_gen W d = (is_dir W [d] \<and> d \<noteq> ''.github'' \<and> path_exists W [d, ''plugin.json''])"

definition selected_simple :: "world \<Rightarrow> string \<Rightarrow> bool" where
  "selected_simple W d = (is_dir W [d] \<and> \<not> starts_with_dot d \<and> path_exists W [d, ''plugin.json''])"

text \<open>What a finished run returned, and the three outputs read back from its files.\<close>

definition run_ok :: "string list \<times> (error + files) \<Rightarrow> bool" where
  "run_ok r = (case snd r of Inr fs \<Rightarrow> True | Inl e \<Rightarrow> False)"

definition run_files :: "string list \<times> (error + files) \<Rightarrow> files" where
  "run_files r = (case snd r of Inr fs \<Rightarrow> fs | Inl e \<Rightarrow> [])"

definition registry_plugins_of :: "files \<Rightarrow> plugin_map" where
  "registry_plugins_of fs =
     (case map_of fs [''registry.yml''] of Some (RegistryYml doc) \<Rightarrow> plugins doc | _ \<Rightarrow> [])"

definition discovery_of :: "files \<Rightarrow> discovery_entry list" where
  "discovery_of fs =
     (case map_of fs [''api'', ''plugins.json''] of Some (PluginsJson d) \<Rightarrow> plugin_list d | _ \<Rightarrow> [])"

fun detail_file :: "path \<times> document \<Rightarrow> (string \<times> plugin_record) list" where
  "detail_file ([a, b, k], PluginDetail r) = (if a = ''api'' \<and> b = ''plugins'' then [(k, r)] else [])"
| "detail_file _ = []"

definition detail_files_of :: "files \<Rightarrow> plugin_map" where
  "detail_files_of fs = concat (map detail_file fs)"

text \<open>
  Modelled from the spec: the order of semantic versions, major.minor.patch with each
  component compared as a number.
\<close>

definition parse_nat :: "string \<Rightarrow> nat" where
  "parse_nat s = foldl (\<lambda>n c. 10 * n + (of_char c - 48)) 0 s"

definition semver :: "string \<Rightarrow> nat list" where
  "semver s = map parse_nat (split_on CHR ''.'' s)"

fun components_less :: "nat list \<Rightarrow> nat list \<Rightarrow> bool" where
  "components_less [] [] = False"
| "components_less [] (y # ys) = True"
| "components_less (x # xs) [] = False"
| "components_less (x # xs) (y # ys) = (x < y \<or> (x = y \<and> components_less xs ys))"

definition semver_less :: "string \<Rightarrow> string \<Rightarrow> bool" where
  "semver_less a b = components_less (semver a) (semver b)"

fun semver_descending :: "string list \<Rightarrow> bool" where
  "semver_descending [] = True"
| "semver_descending [a] = True"
| "semver_descending (a # b # rest) = (semver_less b a \<and> semver_descending (b # rest))"

text \<open>Two plugins: one with the release 1.0.0, one with a manifest and no release.\<close>

definition world_two_plugins :: world where
  "world_two_plugins =
     example_world
       (([], FsDir [''sample-plugin'', ''empty-plugin''])
        # plugin_tree ''sample-plugin'' [7] [(''1.0.0'', [''sample-plugin-linux-amd64''])]
        @ [([''empty-plugin''], FsDir [''plugin.json'']),
           ([''empty-plugin'', ''plugin.json''], FsFile [8])])
       [([7], sample_manifest ''sample-plugin'' []),
        ([8], sample_manifest ''empty-plugin'' [])]"

text \<open>
  The file names a release directory is searched for. simple-registry-generator.py
  builds them from the plugin id and its fixed platform list; generate-registry.py
  from the manifest's platform list and pattern, which can fail.
\<close>

definition binary_name_simple :: "world \<Rightarrow> json \<Rightarrow> string \<Rightarrow> string" where
  "binary_name_simple W plugin_id platform =
     py_str W plugin_id @ ''-'' @ platform @ (if platform = ''windows-amd64'' then ''.exe'' else [])"




text \<open>
  One plugin with the release 1.0.0 and a release directory 2.0.0 that holds no
  binary; its manifest declares the frontend entry \<^verbatim>\<open>component.js\<close>, which no release
  directory holds.
\<close>

definition manifest_with_frontend :: json where
  "manifest_with_frontend =
     sample_manifest ''sample-plugin'' [(''frontend'', JObj [(''entry'', JStr ''component.js'')])]"

definition world_skipped_release :: world where
  "world_skipped_release =
     example_world
       (([], FsDir [''sample-plugin''])
        # plugin_tree ''sample-plugin'' [7]
            [(''1.0.0'', [''sample-plugin-linux-amd64'']),
             (''2.0.0'', [''README.txt''])])
       [([7], manifest_with_frontend)]"

text \<open>
  A checksum field as the claim describes it: \<^verbatim>\<open>sha256:\<close> and then the hexadecimal
  digest of the bytes of the file at \<open>p\<close>; and the shape every such string has.
\<close>

definition checksum_of :: "world \<Rightarrow> path \<Rightarrow> string \<Rightarrow> bool" where
  "checksum_of W p c =
     (case read_bytes W p of
        None \<Rightarrow> False
      | Some bs \<Rightarrow> c = ''sha256:'' @ hex_of_digest (sha256 W bs))"

definition is_hex_digit :: "char \<Rightarrow> bool" where
  "is_hex_digit c = (c \<in> set ''0123456789abcdef'')"

definition well_formed_checksum :: "string \<Rightarrow> bool" where
  "well_formed_checksum c =
     (take 7 c = ''sha256:'' \<and> length c = 71 \<and> list_all is_hex_digit (drop 7 c))"

text \<open>
  The URL of an asset ends in the name of a file of the release directory, and the
  asset's checksum and size are those of that file.
\<close>

definition url_prefix :: "world \<Rightarrow> json \<Rightarrow> path \<Rightarrow> string" where
  "url_prefix W plugin_id version_dir =
     py_str W plugin_id @ ''/releases/'' @ path_name version_dir @ ''/''"

definition asset_of_file :: "world \<Rightarrow> path \<Rightarrow> string \<Rightarrow> asset \<Rightarrow> bool" where
  "asset_of_file W version_dir prefix a =
     (let n = drop (length prefix) (asset_url a)
      in asset_url a = prefix @ n \<and>
         checksum_of W (version_dir @ [n]) (asset_checksum a) \<and>
         asset_size a = st_size W (version_dir @ [n]))"

text \<open>The checksums of a version record of generate-registry.py.\<close>

definition checksums_gen :: "world \<Rightarrow> path \<Rightarrow> json \<Rightarrow> version_record \<Rightarrow> bool" where
  "checksums_gen W version_dir plugin_id v =
     (list_all (\<lambda>ka. asset_of_file W version_dir (url_prefix W plugin_id version_dir) (snd ka))
        (assets v) \<and>
      checksum_of W [py_str W plugin_id, ''plugin.json''] (metadata_checksum (plugin_metadata v)) \<and>
      (case frontend v of
         FrontendBlock b \<Rightarrow>
           (case frontend_entry b of
              JStr s \<Rightarrow>
                if path_exists W (version_dir @ [s])
                then checksum_of W (version_dir @ [s]) (frontend_checksum b)
                else frontend_checksum b = ''sha256:missing''
            | _ \<Rightarrow> False)
       | _ \<Rightarrow> True))"

text \<open>The checksums of a version record of simple-registry-generator.py.\<close>

definition checksums_simple :: "world \<Rightarrow> path \<Rightarrow> json \<Rightarrow> version_record \<Rightarrow> bool" where
  "checksums_simple W version_dir plugin_id v =
     (list_all (\<lambda>ka. asset_of_file W version_dir (url_prefix W plugin_id version_dir) (snd ka))
        (assets v) \<and>
      checksum_of W [py_str W plugin_id, ''plugin.json''] (metadata_checksum (plugin_metadata v)) \<and>
      (case frontend v of
         FrontendBlock b \<Rightarrow>
           frontend_entry b = JStr ''component.js'' \<and>
           checksum_of W (version_dir @ [''component.js'']) (frontend_checksum b)
       | _ \<Rightarrow> True))"

text \<open>One plugin whose release 1.0.0 holds a binary and the declared frontend file.\<close>

definition world_frontend_present :: world where
  "world_frontend_present =
     example_world
       (([], FsDir [''sample-plugin''])
        # plugin_tree ''sample-plugin'' [7]
            [(''1.0.0'', [''sample-plugin-linux-amd64'', ''component.js''])])
       [([7], manifest_with_frontend)]"

text \<open>
  A root directory with a hidden directory that holds a manifest and a release, the
  directory \<^verbatim>\<open>.github\<close> with a manifest, a directory without manifest, a plain file and
  one ordinary plugin.
\<close>

definition world_hidden_dir :: world where
  "world_hidden_dir =
     example_world
       (([], FsDir [''.hidden'', ''.github'', ''docs'', ''README.md'', ''sample-plugin''])
        # plugin_tree ''.hidden'' [6] [(''1.0.0'', [''.hidden-linux-amd64''])]
        @ [([''.github''], FsDir [''plugin.json'']),
           ([''.github'', ''plugin.json''], FsFile [5]),
           ([''docs''], FsDir []),
           ([''README.md''], FsFile [1])]
        @ plugin_tree ''sample-plugin'' [7] [(''1.0.0'', [''sample-plugin-linux-amd64''])])
       [([5], sample_manifest ''.github'' []),
        ([6], sample_manifest ''.hidden'' []),
        ([7], sample_manifest ''sample-plugin'' [])]"

text \<open>
  The manifest of a plugin directory as the scanners read it, and the valid version
  records of the directory: those its release directories give, before sorting.
\<close>

definition manifest_of :: "world \<Rightarrow> string \<Rightarrow> error + json" where
  "manifest_of W d =
     (case read_bytes W [d, ''plugin.json''] of
        None \<Rightarrow> Inl OSError
      | Some bs \<Rightarrow> (case json_loads W bs of None \<Rightarrow> Inl JSONDecodeError | Some pd \<Rightarrow> Inr pd))"

definition valid_versions_gen :: "world \<Rightarrow> string \<Rightarrow> error + version_record list" where
  "valid_versions_gen W d = and_then (manifest_of W d) (collect_releases_gen W [d])"

definition valid_versions_simple :: "world \<Rightarrow> string \<Rightarrow> error + version_record list" where
  "valid_versions_simple W d =
     and_then (manifest_of W d) (\<lambda>pd. snd (collect_versions_simple W [d] pd []))"

text \<open>
  The plugin \<open>d\<close> with the record \<open>r\<close> is in the three outputs: under its key in the
  plugin map of \<^verbatim>\<open>registry.yml\<close>; as an entry of the list of \<^verbatim>\<open>api/plugins.json\<close> whose
  \<open>id\<close> is \<open>d\<close> and whose other fields are those of \<open>r\<close>, the latest version being the
  first of its versions; and as the content of \<^verbatim>\<open>api/plugins/d\<close>.
\<close>

definition entry_of_plugin :: "string \<Rightarrow> plugin_record \<Rightarrow> discovery_entry \<Rightarrow> bool" where
  "entry_of_plugin d r e =
     (entry_id e = d \<and>
      entry_name e = name r \<and>
      entry_description e = description r \<and>
      entry_author e = author r \<and>
      entry_category e = category r \<and>
      entry_tags e = tags r \<and>
      latest_version e = (case versions r of [] \<Rightarrow> None | v # _ \<Rightarrow> Some (version v)) \<and>
      entry_min_delve_version e = min_delve_version r)"

definition in_all_outputs :: "files \<Rightarrow> string \<Rightarrow> plugin_record \<Rightarrow> bool" where
  "in_all_outputs fs d r =
     (map_of (registry_plugins_of fs) d = Some r \<and>
      list_ex (entry_of_plugin d r) (discovery_of fs) \<and>
      map_of fs [''api'', ''plugins'', d] = Some (PluginDetail r))"

text \<open>
  A version record, a plugin record and a plugin map with the time stamps taken out:
  what two runs are compared on.
\<close>

definition without_time :: "version_record \<Rightarrow> version_record" where
  "without_time v = v\<lparr>released := []\<rparr>"

definition plugin_without_times :: "plugin_record \<Rightarrow> plugin_record" where
  "plugin_without_times r = r\<lparr>versions := map without_time (versions r)\<rparr>"

definition map_without_times :: "plugin_map \<Rightarrow> plugin_map" where
  "map_without_times ps = map (\<lambda>p. (fst p, plugin_without_times (snd p))) ps"

text \<open>The document of \<^verbatim>\<open>registry.yml\<close>, and what the claim says of its statistics.\<close>

definition registry_of :: "files \<Rightarrow> registry_document option" where
  "registry_of fs =
     (case map_of fs [''registry.yml''] of Some (RegistryYml doc) \<Rightarrow> Some doc | _ \<Rightarrow> None)"

definition stats_agree :: "registry_document \<Rightarrow> bool" where
  "stats_agree doc =
     (total_plugins (stats doc) = length (plugins doc) \<and>
      total_plugins (stats doc) = card (fst ` set (plugins doc)) \<and>
      total_versions (stats doc) = sum_list (map (\<lambda>p. length (versions (snd p))) (plugins doc)) \<and>
      most_popular (stats doc) = map fst (plugins doc))"


section \<open>Facts about the Python operations\<close>

lemma and_then_Inr_iff: "and_then m f = Inr y \<longleftrightarrow> (\<exists>x. m = Inr x \<and> f x = Inr y)"
  by (cases m) auto

lemma map_of_dict_set: "map_of (dict_set k v kvs) = (map_of kvs)(k \<mapsto> v)"
  by (induction kvs) (auto simp: fun_eq_iff)

lemma keys_dict_set:
  "map fst (dict_set k v kvs) = (if k \<in> set (map fst kvs) then map fst kvs else map fst kvs @ [k])"
  by (induction kvs) auto

lemma distinct_dict_set: "distinct (map fst kvs) \<Longrightarrow> distinct (map fst (dict_set k v kvs))"
  by (simp add: keys_dict_set)

lemma set_dict_set: "set (dict_set k v kvs) \<subseteq> insert (k, v) (set kvs)"
  by (induction kvs) auto

lemma length_py_insort: "length (py_insort key x ys) = Suc (length ys)"
  by (induction ys) auto

lemma set_py_insort: "set (py_insort key x ys) = insert x (set ys)"
  by (induction ys) auto

lemma set_foldr_insort: "set (foldr (py_insort key) xs []) = set xs"
  by (induction xs) (auto simp: set_py_insort)

lemma length_foldr_insort: "length (foldr (py_insort key) xs []) = length xs"
  by (induction xs) (auto simp: length_py_insort)

lemma set_sort_reverse: "set (sort_reverse key xs) = set xs"
  by (simp add: sort_reverse_def set_foldr_insort)

lemma length_sort_reverse: "length (sort_reverse key xs) = length xs"
  by (simp add: sort_reverse_def length_foldr_insort)

lemma sort_reverse_Nil_iff: "sort_reverse key xs = [] \<longleftrightarrow> xs = []"
  using length_sort_reverse [of key xs] by (metis length_0_conv)

section \<open>The files a run writes\<close>

lemma map_of_write_details_other:
  "p \<notin> (\<lambda>q. [''api'', ''plugins'', fst q]) ` set ps \<Longrightarrow> map_of (foldl write_detail fs ps) p = map_of fs p"
  by (induction ps arbitrary: fs) (auto simp: write_detail_def map_of_dict_set split: prod.splits)

lemma plugins_json_kept:
  "map_of (foldl write_detail fs ps) [''api'', ''plugins.json''] = map_of fs [''api'', ''plugins.json'']"
  by (rule map_of_write_details_other) auto

lemma registry_yml_kept:
  "map_of (foldl write_detail fs ps) [''registry.yml''] = map_of fs [''registry.yml'']"
  by (rule map_of_write_details_other) auto

lemma map_of_write_details:
  "distinct (map fst ps) \<Longrightarrow>
   map_of (foldl write_detail fs ps) [''api'', ''plugins'', k] =
     (case map_of ps k of
        Some r \<Rightarrow> Some (PluginDetail r)
      | None \<Rightarrow> map_of fs [''api'', ''plugins'', k])"
proof (induction ps arbitrary: fs)
  case Nil
  then show ?case by simp
next
  case (Cons p ps)
  obtain k' r' where p: "p = (k', r')" by (cases p)
  have d: "distinct (map fst ps)" and notin: "k' \<notin> fst ` set ps"
    using Cons.prems p by auto
  show ?case
  proof (cases "k = k'")
    case True
    then have "map_of ps k = None"
      using notin by (simp add: map_of_eq_None_iff)
    then show ?thesis
      using Cons.IH [OF d, of "write_detail fs p"] True p
      by (simp add: write_detail_def map_of_dict_set)
  next
    case False
    have "map_of (write_detail fs p) [''api'', ''plugins'', k] = map_of fs [''api'', ''plugins'', k]"
      using False p by (simp add: write_detail_def map_of_dict_set)
    then show ?thesis
      using Cons.IH [OF d, of "write_detail fs p"] False p by (simp split: option.splits)
  qed
qed

lemma files_registry_yml:
  "map_of (generate_api_files t2 ps (dict_set [''registry.yml''] d [])) [''registry.yml''] = Some d"
  by (simp add: generate_api_files_def Let_def registry_yml_kept map_of_dict_set)

lemma files_plugins_json:
  "map_of (generate_api_files t2 ps fs) [''api'', ''plugins.json''] =
     Some (PluginsJson \<lparr>plugin_list = map summary_entry ps, total = length ps,
                         list_last_updated = t2 @ ''Z''\<rparr>)"
  by (simp add: generate_api_files_def Let_def plugins_json_kept map_of_dict_set)

lemma files_detail:
  "distinct (map fst ps) \<Longrightarrow>
   map_of (generate_api_files t2 ps (dict_set [''registry.yml''] d [])) [''api'', ''plugins'', k] =
     map_option PluginDetail (map_of ps k)"
  by (simp add: generate_api_files_def Let_def map_of_write_details map_of_dict_set
        split: option.splits)

lemma dict_set_new: "k \<notin> fst ` set kvs \<Longrightarrow> dict_set k v kvs = kvs @ [(k, v)]"
  by (induction kvs) auto

lemma write_details_new:
  "distinct (map fst ps) \<Longrightarrow> \<forall>p \<in> set ps. [''api'', ''plugins'', fst p] \<notin> fst ` set fs \<Longrightarrow>
   foldl write_detail fs ps = fs @ map (\<lambda>p. ([''api'', ''plugins'', fst p], PluginDetail (snd p))) ps"
proof (induction ps arbitrary: fs)
  case Nil
  then show ?case by simp
next
  case (Cons p ps)
  have new: "[''api'', ''plugins'', fst p] \<notin> fst ` set fs"
    using Cons.prems(2) by simp
  have step: "write_detail fs p = fs @ [([''api'', ''plugins'', fst p], PluginDetail (snd p))]"
    using dict_set_new [OF new] by (simp add: write_detail_def split_def)
  have "fst q \<noteq> fst p" if "q \<in> set ps" for q
    using Cons.prems(1) that by (auto simp: image_iff)
  then have "\<forall>q \<in> set ps. [''api'', ''plugins'', fst q] \<notin> fst ` set (write_detail fs p)"
    using Cons.prems(2) step by auto
  then show ?case
    using Cons.IH [of "write_detail fs p"] Cons.prems(1) step by simp
qed

lemma written_files:
  "distinct (map fst ps) \<Longrightarrow>
   generate_api_files t2 ps (dict_set [''registry.yml''] d []) =
     [([''registry.yml''], d),
      ([''api'', ''plugins.json''],
       PluginsJson \<lparr>plugin_list = map summary_entry ps, total = length ps,
                     list_last_updated = t2 @ ''Z''\<rparr>)]
     @ map (\<lambda>p. ([''api'', ''plugins'', fst p], PluginDetail (snd p))) ps"
  by (simp add: generate_api_files_def Let_def write_details_new)

lemma detail_files_of_details:
  "detail_files_of (map (\<lambda>p. ([''api'', ''plugins'', fst p], PluginDetail (snd p))) ps) = ps"
  by (induction ps) (auto simp: detail_files_of_def)

lemma outputs_of_written_files:
  assumes "distinct (map fst ps)"
    and fs_def: "fs = generate_api_files t2 ps (dict_set [''registry.yml''] (RegistryYml (generate_registry t1 ps)) [])"
  shows "registry_plugins_of fs = ps" and "discovery_of fs = map summary_entry ps"
    and "detail_files_of fs = ps"
proof -
  note eq = written_files [OF assms(1), of t2 "RegistryYml (generate_registry t1 ps)"]
  show "registry_plugins_of fs = ps"
    unfolding fs_def eq by (simp add: registry_plugins_of_def generate_registry_def)
  show "discovery_of fs = map summary_entry ps"
    unfolding fs_def eq by (simp add: discovery_of_def)
  have "detail_files_of fs = detail_files_of (map (\<lambda>p. ([''api'', ''plugins'', fst p], PluginDetail (snd p))) ps)"
    unfolding fs_def eq by (simp add: detail_files_of_def)
  then show "detail_files_of fs = ps"
    by (simp add: detail_files_of_details)
qed


section \<open>The scanning loops\<close>

lemma plugin_entry_simple_versions:
  "plugin_entry_simple pd vs = Inr r \<Longrightarrow> versions r = sort_reverse version vs"
  by (auto simp: plugin_entry_simple_def and_then_Inr_iff)

lemma process_plugin_gen_versions:
  "process_plugin_gen W d pd = Inr r \<Longrightarrow>
   \<exists>rs. collect_releases_gen W d pd = Inr rs \<and> versions r = sort_reverse version rs"
  by (auto simp: process_plugin_gen_def and_then_Inr_iff)

lemma scan_loop_simple_skip:
  "\<not> selected_simple W item \<Longrightarrow>
   scan_loop_simple W (item # items) out ps = scan_loop_simple W items out ps"
  by (auto simp: selected_simple_def)

lemma scan_loop_simple_selected:
  "selected_simple W item \<Longrightarrow>
   scan_loop_simple W (item # items) out ps =
     (case read_bytes W [item, ''plugin.json''] of
        None \<Rightarrow> (out @ [''Processing plugin: '' @ item], Inl OSError)
      | Some bs \<Rightarrow>
          (case json_loads W bs of
             None \<Rightarrow> (out @ [''Processing plugin: '' @ item], Inl JSONDecodeError)
           | Some plugin_data \<Rightarrow>
               (case collect_versions_simple W [item] plugin_data (out @ [''Processing plugin: '' @ item]) of
                  (out2, Inl e) \<Rightarrow> (out2, Inl e)
                | (out2, Inr vs) \<Rightarrow>
                    if vs \<noteq> [] then
                      (case plugin_entry_simple plugin_data vs of
                         Inl e \<Rightarrow> (out2, Inl e)
                       | Inr r \<Rightarrow> scan_loop_simple W items out2 (dict_set item r ps))
                    else scan_loop_simple W items out2 ps)))"
  by (simp add: selected_simple_def Let_def split: option.splits prod.splits sum.splits)

text \<open>
  A property of the plugin map that every assignment of the loop keeps holds of the
  map the loop returns.
\<close>

lemma scan_loop_simple_invariant:
  assumes "scan_loop_simple W items out ps = (out', Inr ps')"
    and "I ps"
    and step: "\<And>item pd vs r qs. selected_simple W item \<Longrightarrow> vs \<noteq> [] \<Longrightarrow>
                 plugin_entry_simple pd vs = Inr r \<Longrightarrow> I qs \<Longrightarrow> I (dict_set item r qs)"
  shows "I ps'"
  using assms(1,2)
proof (induction items arbitrary: out ps)
  case Nil
  then show ?case by simp
next
  case (Cons item items)
  show ?case
  proof (cases "selected_simple W item")
    case False
    then have "scan_loop_simple W items out ps = (out', Inr ps')"
      using Cons.prems(1) by (simp only: scan_loop_simple_skip [OF False])
    then show ?thesis using Cons.IH Cons.prems(2) by blast
  next
    case True
    note eq = Cons.prems(1) [unfolded scan_loop_simple_selected [OF True]]
    from eq obtain bs pd out2 vs where
      rest: "(if vs \<noteq> [] then
               (case plugin_entry_simple pd vs of
                  Inl e \<Rightarrow> (out2, Inl e)
                | Inr r \<Rightarrow> scan_loop_simple W items out2 (dict_set item r ps))
              else scan_loop_simple W items out2 ps) = (out', Inr ps')"
      by (auto split: option.splits prod.splits sum.splits)
    show ?thesis
    proof (cases "vs = []")
      case True
      then have "scan_loop_simple W items out2 ps = (out', Inr ps')"
        using rest by simp
      then show ?thesis using Cons.IH Cons.prems(2) by blast
    next
      case nonempty: False
      then obtain r where
        pe: "plugin_entry_simple pd vs = Inr r" and
        rest': "scan_loop_simple W items out2 (dict_set item r ps) = (out', Inr ps')"
        using rest by (auto split: sum.splits)
      have "I (dict_set item r ps)"
        by (rule step [OF True nonempty pe Cons.prems(2)])
      then show ?thesis using Cons.IH [OF rest'] by blast
    qed
  qed
qed

lemma scan_plugins_simple_nonempty_versions:
  assumes "scan_plugins_simple W = (out, Inr ps)"
  shows "\<forall>p \<in> set ps. versions (snd p) \<noteq> []"
proof -
  obtain items where loop: "scan_loop_simple W items [] [] = (out, Inr ps)"
    using assms by (auto simp: scan_plugins_simple_def split: option.splits)
  show ?thesis
  proof (rule scan_loop_simple_invariant [OF loop, where I = "\<lambda>qs. \<forall>p \<in> set qs. versions (snd p) \<noteq> []"])
    show "\<forall>p \<in> set []. versions (snd p) \<noteq> []" by simp
  next
    fix item pd vs r and qs :: plugin_map
    assume "vs \<noteq> []" and pe: "plugin_entry_simple pd vs = Inr r"
      and inv: "\<forall>p \<in> set qs. versions (snd p) \<noteq> []"
    then have "versions r \<noteq> []"
      using plugin_entry_simple_versions [OF pe] by (simp add: sort_reverse_Nil_iff)
    then show "\<forall>p \<in> set (dict_set item r qs). versions (snd p) \<noteq> []"
      using inv set_dict_set [of item r qs] by auto
  qed
qed

lemma scan_plugins_simple_distinct:
  assumes "scan_plugins_simple W = (out, Inr ps)"
  shows "distinct (map fst ps)"
proof -
  obtain items where loop: "scan_loop_simple W items [] [] = (out, Inr ps)"
    using assms by (auto simp: scan_plugins_simple_def split: option.splits)
  show ?thesis
    by (rule scan_loop_simple_invariant [OF loop, where I = "\<lambda>qs. distinct (map fst qs)"])
       (simp_all add: distinct_dict_set)
qed

lemma main_simple_files:
  assumes "main_simple W t1 t2 = (out, Inr fs)"
  shows "\<exists>lines ps. scan_plugins_simple W = (lines, Inr ps) \<and>
           registry_plugins_of fs = ps \<and> discovery_of fs = map summary_entry ps \<and>
           detail_files_of fs = ps"
proof -
  obtain lines ps where scan: "scan_plugins_simple W = (lines, Inr ps)"
    using assms by (auto simp: main_simple_def Let_def split: prod.splits sum.splits)
  show ?thesis
  proof (cases "ps = []")
    case True
    then have "fs = []"
      using assms scan by (simp add: main_simple_def Let_def)
    then show ?thesis
      using scan True
      by (simp add: registry_plugins_of_def discovery_of_def detail_files_of_def)
  next
    case False
    then have fs: "fs = generate_api_files t2 ps
                          (dict_set [''registry.yml''] (RegistryYml (generate_registry t1 ps)) [])"
      using assms scan by (simp add: main_simple_def Let_def)
    show ?thesis
      using scan outputs_of_written_files [OF scan_plugins_simple_distinct [OF scan] fs]
      by simp
  qed
qed


lemma scan_loop_gen_skip:
  "\<not> selected_gen W n \<Longrightarrow> scan_loop_gen W (n # ns) ps = scan_loop_gen W ns ps"
  by (auto simp: selected_gen_def)

lemma scan_loop_gen_selected:
  "selected_gen W n \<Longrightarrow>
   scan_loop_gen W (n # ns) ps =
     (case read_bytes W [n, ''plugin.json''] of
        None \<Rightarrow> Inl OSError
      | Some bs \<Rightarrow>
          (case json_loads W bs of
             None \<Rightarrow> Inl JSONDecodeError
           | Some plugin_data \<Rightarrow>
               and_then (process_plugin_gen W [n] plugin_data) (\<lambda>r.
               scan_loop_gen W ns (dict_set n r ps))))"
  by (simp add: selected_gen_def)

lemma scan_loop_gen_invariant:
  assumes "scan_loop_gen W ns ps = Inr ps'"
    and "I ps"
    and step: "\<And>n pd r qs. selected_gen W n \<Longrightarrow> process_plugin_gen W [n] pd = Inr r \<Longrightarrow>
                 I qs \<Longrightarrow> I (dict_set n r qs)"
  shows "I ps'"
  using assms(1,2)
proof (induction ns arbitrary: ps)
  case Nil
  then show ?case by simp
next
  case (Cons n ns)
  show ?case
  proof (cases "selected_gen W n")
    case False
    then have "scan_loop_gen W ns ps = Inr ps'"
      using Cons.prems(1) by (simp only: scan_loop_gen_skip [OF False])
    then show ?thesis using Cons.IH Cons.prems(2) by blast
  next
    case True
    note eq = Cons.prems(1) [unfolded scan_loop_gen_selected [OF True]]
    from eq obtain pd r where
      pp: "process_plugin_gen W [n] pd = Inr r" and
      rest: "scan_loop_gen W ns (dict_set n r ps) = Inr ps'"
      by (auto simp: and_then_Inr_iff split: option.splits)
    have "I (dict_set n r ps)"
      by (rule step [OF True pp Cons.prems(2)])
    then show ?thesis using Cons.IH [OF rest] by blast
  qed
qed

lemma scan_plugins_gen_distinct:
  assumes "scan_plugins_gen W = Inr ps"
  shows "distinct (map fst ps)"
proof -
  obtain ns where loop: "scan_loop_gen W ns [] = Inr ps"
    using assms by (auto simp: scan_plugins_gen_def split: option.splits)
  show ?thesis
    by (rule scan_loop_gen_invariant [OF loop, where I = "\<lambda>qs. distinct (map fst qs)"])
       (simp_all add: distinct_dict_set)
qed

lemma main_gen_files:
  assumes "main_gen W t1 t2 = (out, Inr fs)"
  shows "\<exists>ps. scan_plugins_gen W = Inr ps \<and>
           registry_plugins_of fs = ps \<and> discovery_of fs = map summary_entry ps \<and>
           detail_files_of fs = ps"
proof -
  obtain ps where scan: "scan_plugins_gen W = Inr ps"
    using assms by (auto simp: main_gen_def split: sum.splits)
  have fs: "fs = generate_api_files t2 ps
                   (dict_set [''registry.yml''] (RegistryYml (generate_registry t1 ps)) [])"
    using assms scan by (simp add: main_gen_def)
  show ?thesis
    using scan outputs_of_written_files [OF scan_plugins_gen_distinct [OF scan] fs]
    by simp
qed

section \<open>Release directories\<close>

lemma platform_step_simple_absent:
  "\<not> path_exists W (vd @ [binary_name_simple W pid platform]) \<Longrightarrow>
   platform_step_simple W vd pid platform acc = Inr acc"
  by (cases "platform = ''windows-amd64''")
     (simp_all add: platform_step_simple_def binary_name_simple_def Let_def)






lemma getitem_dict_get: "getitem v k = Inr x \<Longrightarrow> dict_get v k d = Inr x"
  by (cases v) (auto split: option.splits)

section \<open>Checksums\<close>

lemma foldl_sha_update: "foldl sha_update acc (read_chunks bs) = acc @ bs"
proof (induction bs arbitrary: acc rule: read_chunks.induct)
  case (1 bs)
  show ?case
  proof (cases "take 4096 bs = []")
    case True
    then have "bs = []" by (simp add: take_eq_Nil)
    then show ?thesis by (simp add: read_chunks.simps)
  next
    case False
    have "foldl sha_update acc (read_chunks bs)
            = foldl sha_update (acc @ take 4096 bs) (read_chunks (drop 4096 bs))"
      using False by (subst read_chunks.simps) (simp add: sha_update_def)
    also have "\<dots> = (acc @ take 4096 bs) @ drop 4096 bs"
      by (rule "1.IH" [OF False])
    finally show ?thesis by simp
  qed
qed

lemma calculate_checksum_eq:
  "calculate_checksum W p =
     (case read_bytes W p of None \<Rightarrow> Inl OSError | Some bs \<Rightarrow> Inr (hex_of_digest (sha256 W bs)))"
  by (simp add: calculate_checksum_def hexdigest_def foldl_sha_update split: option.splits)

lemma calculate_checksum_of:
  "calculate_checksum W p = Inr d \<Longrightarrow> checksum_of W p (''sha256:'' @ d)"
  by (auto simp: calculate_checksum_eq checksum_of_def split: option.splits)

lemma hex_digit_is_hex: "m < 16 \<Longrightarrow> is_hex_digit (hex_digit m)"
  unfolding hex_digit_def is_hex_digit_def by (rule nth_mem) simp

lemma length_hex_digits: "length (hex_digits k n acc) = k + length acc"
  by (induction k arbitrary: n acc) simp_all

lemma hex_digits_all_hex:
  "list_all is_hex_digit acc \<Longrightarrow> list_all is_hex_digit (hex_digits k n acc)"
proof (induction k arbitrary: n acc)
  case 0
  then show ?case by simp
next
  case (Suc k)
  have "nat (n mod 16) < 16" by simp
  then have "is_hex_digit (hex_digit (nat (n mod 16)))" by (rule hex_digit_is_hex)
  then have "list_all is_hex_digit (hex_digit (nat (n mod 16)) # acc)"
    using Suc.prems by simp
  then have "list_all is_hex_digit (hex_digits k (n div 16) (hex_digit (nat (n mod 16)) # acc))"
    by (rule Suc.IH)
  then show ?case by (simp only: hex_digits.simps)
qed

lemma length_hex_of_digest: "length (hex_of_digest d) = 64"
  unfolding hex_of_digest_def by (simp only: length_hex_digits list.size add_0_right)

lemma hex_of_digest_all_hex: "list_all is_hex_digit (hex_of_digest d)"
  unfolding hex_of_digest_def by (rule hex_digits_all_hex) simp

lemma checksum_of_well_formed: "checksum_of W p c \<Longrightarrow> well_formed_checksum c"
  by (auto simp: checksum_of_def well_formed_checksum_def length_hex_of_digest
        hex_of_digest_all_hex split: option.splits)

lemma list_all_dict_set:
  "list_all (\<lambda>ka. P (snd ka)) kvs \<Longrightarrow> P v \<Longrightarrow> list_all (\<lambda>ka. P (snd ka)) (dict_set k v kvs)"
  using set_dict_set [of k v kvs] by (auto simp: list_all_iff)

lemma new_asset_of_file:
  "calculate_checksum W (vd @ [n]) = Inr d \<Longrightarrow>
   asset_of_file W vd prefix
     \<lparr>asset_url = prefix @ n, asset_checksum = ''sha256:'' @ d, asset_size = st_size W (vd @ [n])\<rparr>"
  using calculate_checksum_of [of W "vd @ [n]" d] by (simp add: asset_of_file_def)

lemma platform_step_gen_cases:
  assumes "platform_step_gen W vd pd p acc = Inr acc'"
  obtains (absent) "acc' = acc"
  | (present) oa n plugin_id d where
      "info_item pd ''id'' = Inr plugin_id"
      "calculate_checksum W (vd @ [n]) = Inr d"
      "acc' = dict_set (fst oa @ ''-'' @ snd oa)
                \<lparr>asset_url = py_str W plugin_id @ ''/releases/'' @ path_name vd @ ''/'' @ n,
                 asset_checksum = ''sha256:'' @ d,
                 asset_size = st_size W (vd @ [n])\<rparr> acc"
proof -
  obtain oa where sp: "split_platform p = Inr oa"
    using assms by (cases "split_platform p") (simp_all add: platform_step_gen_def)
  obtain n where bn: "binary_name_gen W pd (fst oa) (snd oa) = Inr n"
    using assms sp
    by (cases "binary_name_gen W pd (fst oa) (snd oa)") (simp_all add: platform_step_gen_def)
  show thesis
  proof (cases "path_exists W (vd @ [n])")
    case False
    then have "acc' = acc"
      using assms sp bn by (simp add: platform_step_gen_def)
    then show thesis by (rule absent)
  next
    case True
    obtain plugin_id where pid: "info_item pd ''id'' = Inr plugin_id"
      using assms sp bn True
      by (cases "info_item pd ''id''") (simp_all add: platform_step_gen_def)
    obtain d where cs: "calculate_checksum W (vd @ [n]) = Inr d"
      using assms sp bn True pid
      by (cases "calculate_checksum W (vd @ [n])") (simp_all add: platform_step_gen_def)
    have "acc' = dict_set (fst oa @ ''-'' @ snd oa)
                \<lparr>asset_url = py_str W plugin_id @ ''/releases/'' @ path_name vd @ ''/'' @ n,
                 asset_checksum = ''sha256:'' @ d,
                 asset_size = st_size W (vd @ [n])\<rparr> acc"
      using assms sp bn True pid cs by (simp add: platform_step_gen_def)
    then show thesis by (rule present [OF pid cs])
  qed
qed

lemma platform_step_gen_assets:
  assumes "platform_step_gen W vd pd p acc = Inr acc'"
    and "info_item pd ''id'' = Inr pid"
    and "list_all (\<lambda>ka. asset_of_file W vd (url_prefix W pid vd) (snd ka)) acc"
  shows "list_all (\<lambda>ka. asset_of_file W vd (url_prefix W pid vd) (snd ka)) acc'"
  using assms(1)
proof (cases rule: platform_step_gen_cases)
  case absent
  then show ?thesis using assms(3) by simp
next
  case (present oa n plugin_id d)
  have "plugin_id = pid" using present(1) assms(2) by simp
  then have acc': "acc' = dict_set (fst oa @ ''-'' @ snd oa)
                     \<lparr>asset_url = url_prefix W pid vd @ n,
                      asset_checksum = ''sha256:'' @ d,
                      asset_size = st_size W (vd @ [n])\<rparr> acc"
    using present(3) by (simp add: url_prefix_def)
  show ?thesis
    unfolding acc'
    by (rule list_all_dict_set [where P = "asset_of_file W vd (url_prefix W pid vd)", OF assms(3)])
       (rule new_asset_of_file [OF present(2)])
qed

lemma platform_loop_gen_assets:
  assumes "platform_loop_gen W vd pd pl acc = Inr found"
    and "info_item pd ''id'' = Inr pid"
    and "list_all (\<lambda>ka. asset_of_file W vd (url_prefix W pid vd) (snd ka)) acc"
  shows "list_all (\<lambda>ka. asset_of_file W vd (url_prefix W pid vd) (snd ka)) found"
  using assms(1,3)
proof (induction pl arbitrary: acc)
  case Nil
  then show ?case by simp
next
  case (Cons p pl)
  from Cons.prems(1) obtain acc' where
    st: "platform_step_gen W vd pd p acc = Inr acc'" and
    rest: "platform_loop_gen W vd pd pl acc' = Inr found"
    by (auto simp: and_then_Inr_iff)
  show ?case
    by (rule Cons.IH [OF rest platform_step_gen_assets [OF st assms(2) Cons.prems(2)]])
qed

lemma platform_step_simple_assets:
  assumes "platform_step_simple W vd pid p acc = Inr acc'"
    and "list_all (\<lambda>ka. asset_of_file W vd (url_prefix W pid vd) (snd ka)) acc"
  shows "list_all (\<lambda>ka. asset_of_file W vd (url_prefix W pid vd) (snd ka)) acc'"
proof (cases "path_exists W (vd @ [binary_name_simple W pid p])")
  case False
  then show ?thesis
    using assms platform_step_simple_absent [OF False, of acc] by simp
next
  case True
  have name: "(if p = ''windows-amd64'' then (py_str W pid @ ''-'' @ p) @ ''.exe'' else py_str W pid @ ''-'' @ p)
                = binary_name_simple W pid p"
    by (simp add: binary_name_simple_def)
  from assms(1) True obtain d where
    cs: "calculate_checksum W (vd @ [binary_name_simple W pid p]) = Inr d" and
    acc': "acc' = dict_set p
                   \<lparr>asset_url = url_prefix W pid vd @ binary_name_simple W pid p,
                    asset_checksum = ''sha256:'' @ d,
                    asset_size = st_size W (vd @ [binary_name_simple W pid p])\<rparr> acc"
    unfolding platform_step_simple_def Let_def name
    by (auto simp: and_then_Inr_iff url_prefix_def)
  show ?thesis
    unfolding acc'
    by (rule list_all_dict_set [where P = "asset_of_file W vd (url_prefix W pid vd)", OF assms(2)])
       (rule new_asset_of_file [OF cs])
qed

lemma platform_loop_simple_assets:
  assumes "platform_loop_simple W vd pid pl acc = Inr found"
    and "list_all (\<lambda>ka. asset_of_file W vd (url_prefix W pid vd) (snd ka)) acc"
  shows "list_all (\<lambda>ka. asset_of_file W vd (url_prefix W pid vd) (snd ka)) found"
  using assms
proof (induction pl arbitrary: acc)
  case Nil
  then show ?case by simp
next
  case (Cons p pl)
  from Cons.prems(1) obtain acc' where
    st: "platform_step_simple W vd pid p acc = Inr acc'" and
    rest: "platform_loop_simple W vd pid pl acc' = Inr found"
    by (auto simp: and_then_Inr_iff)
  show ?case
    by (rule Cons.IH [OF rest platform_step_simple_assets [OF st Cons.prems(2)]])
qed


lemma path_join_Inr: "path_join p v = Inr q \<Longrightarrow> \<exists>s. v = JStr s \<and> q = p @ [s]"
  by (cases v) auto

lemma frontend_checksum_gen_cases:
  assumes "frontend_checksum_gen W vd entry = Inr cs"
  shows "cs = None \<or>
         (\<exists>s. entry = JStr s \<and>
              (if path_exists W (vd @ [s])
               then \<exists>d. calculate_checksum W (vd @ [s]) = Inr d \<and> cs = Some d
               else cs = Some ''missing''))"
proof (cases "truthy entry")
  case False
  then show ?thesis using assms by (simp add: frontend_checksum_gen_def)
next
  case True
  then obtain fp where pj: "path_join vd entry = Inr fp"
    using assms by (cases "path_join vd entry") (simp_all add: frontend_checksum_gen_def)
  then obtain s where s: "entry = JStr s" "fp = vd @ [s]"
    using path_join_Inr by blast
  show ?thesis
  proof (cases "path_exists W (vd @ [s])")
    case False
    then show ?thesis
      using assms True s by (simp add: frontend_checksum_gen_def)
  next
    case exists: True
    then obtain d where "calculate_checksum W (vd @ [s]) = Inr d" "cs = Some d"
      using assms True s
      by (cases "calculate_checksum W (vd @ [s])") (auto simp: frontend_checksum_gen_def)
    then show ?thesis using exists s by simp
  qed
qed

lemma process_release_gen_Some:
  assumes "process_release_gen W vd pd = Inr (Some v)"
  obtains pl found entry cs supported pid s d where
    "platform_loop_gen W vd pd pl [] = Inr found"
    "frontend_checksum_gen W vd entry = Inr cs"
    "info_item pd ''id'' = Inr pid" "pid = JStr s"
    "calculate_checksum W [s, ''plugin.json''] = Inr d"
    "v = \<lparr>version = path_name vd, released = mtime_iso W vd @ ''Z'', compatibility = supported,
          assets = found,
          frontend = (case cs of None \<Rightarrow> FrontendNull
                      | Some c \<Rightarrow> if c = [] then FrontendNull
                                  else FrontendBlock \<lparr>frontend_entry = entry, frontend_checksum = ''sha256:'' @ c\<rparr>),
          plugin_metadata = \<lparr>metadata_url = py_str W pid @ ''/plugin.json'',
                             metadata_checksum = ''sha256:'' @ d\<rparr>\<rparr>"
proof -
  from assms obtain build platforms pl found fsec entry cs where
    b: "getitem pd ''build'' = Inr build" "getitem build ''platforms'' = Inr platforms"
       "py_iter platforms = Inr pl" and
    loop: "platform_loop_gen W vd pd pl [] = Inr found" and
    fc: "frontend_checksum_gen W vd entry = Inr cs" and
    rest: "(if found = [] then Inr None
            else
              and_then (getitem pd ''compatibility'') (\<lambda>compat.
              and_then (getitem compat ''supported_versions'') (\<lambda>supported.
              and_then (info_item pd ''id'') (\<lambda>plugin_id.
              and_then (path_join [] plugin_id) (\<lambda>id_dir.
              and_then (calculate_checksum W (id_dir @ [''plugin.json''])) (\<lambda>digest.
              Inr (Some
                \<lparr>version = path_name vd, released = mtime_iso W vd @ ''Z'',
                 compatibility = supported, assets = found,
                 frontend =
                   (case cs of None \<Rightarrow> FrontendNull
                    | Some c \<Rightarrow> if c = [] then FrontendNull
                                else FrontendBlock \<lparr>frontend_entry = entry, frontend_checksum = ''sha256:'' @ c\<rparr>),
                 plugin_metadata =
                   \<lparr>metadata_url = py_str W plugin_id @ ''/plugin.json'',
                    metadata_checksum = ''sha256:'' @ digest\<rparr>\<rparr>))))))) = Inr (Some v)"
    unfolding process_release_gen_def and_then_Inr_iff by blast
  have ne: "found \<noteq> []" using rest by (auto split: if_splits)
  note rest' = rest [unfolded if_not_P [OF ne]]
  from rest' obtain compat supported pid id_dir d where
    pid: "info_item pd ''id'' = Inr pid" and pj: "path_join [] pid = Inr id_dir" and
    cs: "calculate_checksum W (id_dir @ [''plugin.json'']) = Inr d" and
    v: "v = \<lparr>version = path_name vd, released = mtime_iso W vd @ ''Z'',
                 compatibility = supported, assets = found,
                 frontend =
                   (case cs of None \<Rightarrow> FrontendNull
                    | Some c \<Rightarrow> if c = [] then FrontendNull
                                else FrontendBlock \<lparr>frontend_entry = entry, frontend_checksum = ''sha256:'' @ c\<rparr>),
                 plugin_metadata =
                   \<lparr>metadata_url = py_str W pid @ ''/plugin.json'',
                    metadata_checksum = ''sha256:'' @ d\<rparr>\<rparr>"
    unfolding and_then_Inr_iff by blast
  from pj obtain s where s: "pid = JStr s" "id_dir = [s]"
    using path_join_Inr by fastforce
  show thesis
    using that [OF loop fc pid s(1) _ v] cs s(2) by simp
qed


lemma process_version_simple_Some:
  assumes "process_version_simple W vd pd = Inr (printed, Some v)"
  obtains found compat fe pid s d where
    "info_item pd ''id'' = Inr pid" "pid = JStr s"
    "platform_loop_simple W vd pid platforms_simple [] = Inr found"
    "frontend_simple W vd = Inr fe"
    "calculate_checksum W [s, ''plugin.json''] = Inr d"
    "v = \<lparr>version = path_name vd, released = mtime_iso W vd @ ''Z'', compatibility = compat,
          assets = found, frontend = fe,
          plugin_metadata = \<lparr>metadata_url = py_str W pid @ ''/plugin.json'',
                             metadata_checksum = ''sha256:'' @ d\<rparr>\<rparr>"
proof -
  from assms obtain pid found where
    pid: "info_item pd ''id'' = Inr pid" and
    loop: "platform_loop_simple W vd pid platforms_simple [] = Inr found" and
    rest: "(if found = [] then
              Inr ([''  No binaries found for '' @ path_name vd], None)
            else
              and_then (dict_get pd ''compatibility'' (JArr [JStr ''v0.1.0'', JStr ''v0.2.0''])) (\<lambda>compat.
              and_then (frontend_simple W vd) (\<lambda>fe.
              and_then (path_join [] pid) (\<lambda>id_dir.
              and_then (calculate_checksum W (id_dir @ [''plugin.json''])) (\<lambda>digest.
              Inr ([''  Found version '' @ path_name vd @ '' with ''
                      @ str_of_nat (length found) @ '' platform(s)''],
                   Some
                     \<lparr>version = path_name vd, released = mtime_iso W vd @ ''Z'',
                      compatibility = compat, assets = found, frontend = fe,
                      plugin_metadata =
                        \<lparr>metadata_url = py_str W pid @ ''/plugin.json'',
                         metadata_checksum = ''sha256:'' @ digest\<rparr>\<rparr>)))))) = Inr (printed, Some v)"
    unfolding process_version_simple_def and_then_Inr_iff by blast
  have ne: "found \<noteq> []" using rest by (auto split: if_splits)
  note rest' = rest [unfolded if_not_P [OF ne]]
  from rest' obtain compat fe id_dir d where
    fe: "frontend_simple W vd = Inr fe" and pj: "path_join [] pid = Inr id_dir" and
    cs: "calculate_checksum W (id_dir @ [''plugin.json'']) = Inr d" and
    v: "v = \<lparr>version = path_name vd, released = mtime_iso W vd @ ''Z'',
               compatibility = compat, assets = found, frontend = fe,
               plugin_metadata =
                 \<lparr>metadata_url = py_str W pid @ ''/plugin.json'',
                  metadata_checksum = ''sha256:'' @ d\<rparr>\<rparr>"
    unfolding and_then_Inr_iff by blast
  from pj obtain s where s: "pid = JStr s" "id_dir = [s]"
    using path_join_Inr by fastforce
  show thesis
    using that [OF pid s(1) loop fe _ v] cs s(2) by simp
qed

lemma frontend_simple_cases:
  assumes "frontend_simple W vd = Inr fe"
  shows "fe = FrontendAbsent \<or>
         (\<exists>d. calculate_checksum W (vd @ [''component.js'']) = Inr d \<and>
              fe = FrontendBlock \<lparr>frontend_entry = JStr ''component.js'',
                                  frontend_checksum = ''sha256:'' @ d\<rparr>)"
proof (cases "path_exists W (vd @ [''component.js''])")
  case False
  then show ?thesis using assms by (simp add: frontend_simple_def)
next
  case True
  then show ?thesis
    using assms
    by (cases "calculate_checksum W (vd @ [''component.js''])") (auto simp: frontend_simple_def)
qed


section \<open>Which directories the scanners enter\<close>

lemma scan_loop_gen_filter:
  "scan_loop_gen W items ps = scan_loop_gen W (filter (selected_gen W) items) ps"
proof (induction items arbitrary: ps)
  case Nil
  then show ?case by simp
next
  case (Cons n ns)
  show ?case
  proof (cases "selected_gen W n")
    case False
    then show ?thesis
      using Cons.IH by (simp only: scan_loop_gen_skip [OF False] filter.simps if_False)
  next
    case True
    have "scan_loop_gen W (filter (selected_gen W) (n # ns)) ps
            = scan_loop_gen W (n # filter (selected_gen W) ns) ps"
      using True by simp
    also have "\<dots> = scan_loop_gen W (n # ns) ps"
      unfolding scan_loop_gen_selected [OF True]
      by (simp add: Cons.IH [symmetric] split: option.splits)
    finally show ?thesis by simp
  qed
qed

lemma scan_loop_simple_filter:
  "scan_loop_simple W items out ps = scan_loop_simple W (filter (selected_simple W) items) out ps"
proof (induction items arbitrary: out ps)
  case Nil
  then show ?case by simp
next
  case (Cons n ns)
  show ?case
  proof (cases "selected_simple W n")
    case False
    then show ?thesis
      using Cons.IH by (simp only: scan_loop_simple_skip [OF False] filter.simps if_False)
  next
    case True
    have "scan_loop_simple W (filter (selected_simple W) (n # ns)) out ps
            = scan_loop_simple W (n # filter (selected_simple W) ns) out ps"
      using True by simp
    also have "\<dots> = scan_loop_simple W (n # ns) out ps"
      unfolding scan_loop_simple_selected [OF True]
      by (simp add: Cons.IH [symmetric] split: option.splits prod.splits sum.splits)
    finally show ?thesis by simp
  qed
qed

lemma scan_loop_gen_keys:
  "scan_loop_gen W ns ps = Inr ps' \<Longrightarrow>
   set (map fst ps') = set (map fst ps) \<union> {n \<in> set ns. selected_gen W n}"
proof (induction ns arbitrary: ps)
  case Nil
  then show ?case by simp
next
  case (Cons n ns)
  show ?case
  proof (cases "selected_gen W n")
    case False
    then have "scan_loop_gen W ns ps = Inr ps'"
      using Cons.prems by (simp only: scan_loop_gen_skip [OF False])
    then show ?thesis using Cons.IH False by auto
  next
    case True
    note eq = Cons.prems [unfolded scan_loop_gen_selected [OF True]]
    from eq obtain r where
      rest: "scan_loop_gen W ns (dict_set n r ps) = Inr ps'"
      by (auto simp: and_then_Inr_iff split: option.splits)
    have "set (map fst (dict_set n r ps)) = insert n (set (map fst ps))"
      by (auto simp: keys_dict_set)
    then show ?thesis using Cons.IH [OF rest] True by auto
  qed
qed


lemma version_loop_simple_out:
  "version_loop_simple W rd pd ns out vs = (out', r) \<Longrightarrow> \<exists>extra. out' = out @ extra"
proof (induction ns arbitrary: out vs)
  case Nil
  then show ?case by simp
next
  case (Cons n ns)
  show ?case
  proof (cases "is_dir W (rd @ [n])")
    case False
    then show ?thesis using Cons by simp
  next
    case True
    show ?thesis
    proof (cases "process_version_simple W (rd @ [n]) pd")
      case (Inl e)
      then show ?thesis using Cons.prems True by simp
    next
      case (Inr pr)
      obtain printed vd where pr: "pr = (printed, vd)" by (cases pr)
      have "version_loop_simple W rd pd ns (out @ printed)
              (case vd of None \<Rightarrow> vs | Some v \<Rightarrow> vs @ [v]) = (out', r)"
        using Cons.prems True Inr pr by simp
      then obtain extra where "out' = (out @ printed) @ extra"
        using Cons.IH by blast
      then show ?thesis by simp
    qed
  qed
qed

lemma collect_versions_simple_out:
  "collect_versions_simple W d pd out = (out', r) \<Longrightarrow> \<exists>extra. out' = out @ extra"
  using version_loop_simple_out
  by (fastforce simp: collect_versions_simple_def Let_def split: if_splits option.splits)

lemma scan_loop_simple_lines:
  "scan_loop_simple W items out ps = (out', Inr ps') \<Longrightarrow>
   set out \<subseteq> set out' \<and>
   (\<forall>d \<in> set items. selected_simple W d \<longrightarrow> ''Processing plugin: '' @ d \<in> set out') \<and>
   set (map fst ps') \<subseteq> set (map fst ps) \<union> {d \<in> set items. selected_simple W d}"
proof (induction items arbitrary: out ps)
  case Nil
  then show ?case by simp
next
  case (Cons item items)
  show ?case
  proof (cases "selected_simple W item")
    case False
    then have "scan_loop_simple W items out ps = (out', Inr ps')"
      using Cons.prems by (simp only: scan_loop_simple_skip [OF False])
    from Cons.IH [OF this] False show ?thesis by auto
  next
    case True
    let ?out1 = "out @ [''Processing plugin: '' @ item]"
    note eq = Cons.prems [unfolded scan_loop_simple_selected [OF True]]
    from eq obtain pd out2 vs where
      cv: "collect_versions_simple W [item] pd ?out1 = (out2, Inr vs)" and
      rest: "(if vs \<noteq> [] then
               (case plugin_entry_simple pd vs of
                  Inl e \<Rightarrow> (out2, Inl e)
                | Inr r \<Rightarrow> scan_loop_simple W items out2 (dict_set item r ps))
              else scan_loop_simple W items out2 ps) = (out', Inr ps')"
      by (auto split: option.splits prod.splits sum.splits)
    obtain extra where out2: "out2 = ?out1 @ extra"
      using collect_versions_simple_out [OF cv] by blast
    obtain qs where
      loop: "scan_loop_simple W items out2 qs = (out', Inr ps')" and
      qs: "set (map fst qs) \<subseteq> insert item (set (map fst ps))"
    proof (cases "vs = []")
      case True
      then have l: "scan_loop_simple W items out2 ps = (out', Inr ps')" using rest by simp
      have k: "set (map fst ps) \<subseteq> insert item (set (map fst ps))" by auto
      show ?thesis by (rule that [OF l k])
    next
      case False
      then obtain r where l: "scan_loop_simple W items out2 (dict_set item r ps) = (out', Inr ps')"
        using rest by (auto split: sum.splits)
      have k: "set (map fst (dict_set item r ps)) \<subseteq> insert item (set (map fst ps))"
        by (auto simp: keys_dict_set split: if_splits)
      show ?thesis by (rule that [OF l k])
    qed
    from Cons.IH [OF loop] have
      a: "set out2 \<subseteq> set out'" and
      b: "\<forall>d \<in> set items. selected_simple W d \<longrightarrow> ''Processing plugin: '' @ d \<in> set out'" and
      c: "set (map fst ps') \<subseteq> set (map fst qs) \<union> {d \<in> set items. selected_simple W d}"
      by blast+
    have o: "set out \<subseteq> set out'" and i: "''Processing plugin: '' @ item \<in> set out'"
      using a out2 by auto
    have l: "\<forall>d \<in> set (item # items). selected_simple W d \<longrightarrow> ''Processing plugin: '' @ d \<in> set out'"
      using b i by simp
    have k: "set (map fst ps') \<subseteq> set (map fst ps) \<union> {d \<in> set (item # items). selected_simple W d}"
    proof
      fix x assume "x \<in> set (map fst ps')"
      then have "x \<in> set (map fst qs) \<or> (x \<in> set items \<and> selected_simple W x)"
        using c by blast
      then have "x = item \<or> x \<in> set (map fst ps) \<or> (x \<in> set items \<and> selected_simple W x)"
        using qs by blast
      then show "x \<in> set (map fst ps) \<union> {d \<in> set (item # items). selected_simple W d}"
        using True by auto
    qed
    show ?thesis using o l k by blast
  qed
qed


section \<open>The records of the plugin map\<close>

lemma set_keys_dict_set: "fst ` set (dict_set k v kvs) = insert k (fst ` set kvs)"
  by (induction kvs) auto

lemma version_loop_simple_result:
  "snd (version_loop_simple W rd pd ns out vs) = snd (version_loop_simple W rd pd ns out' vs)"
proof (induction ns arbitrary: out out' vs)
  case Nil
  then show ?case by simp
next
  case (Cons n ns)
  show ?case
  proof (cases "is_dir W (rd @ [n])")
    case False
    then show ?thesis using Cons.IH by simp
  next
    case True
    show ?thesis
    proof (cases "process_version_simple W (rd @ [n]) pd")
      case (Inl e)
      then show ?thesis using True by simp
    next
      case (Inr pr)
      obtain printed vd where pr: "pr = (printed, vd)" by (cases pr)
      show ?thesis
        using True Inr pr Cons.IH [of "out @ printed" _ "out' @ printed"] by simp
    qed
  qed
qed

lemma collect_versions_simple_result:
  "snd (collect_versions_simple W d pd out) = snd (collect_versions_simple W d pd [])"
  using version_loop_simple_result [of W _ pd _ out "[]" "[]"]
  by (simp add: collect_versions_simple_def Let_def split: option.splits)

lemma scan_loop_simple_step:
  assumes "selected_simple W item"
    and "scan_loop_simple W (item # items) out ps = (out', Inr ps')"
  obtains pd vs out2 qs where
    "manifest_of W item = Inr pd" "valid_versions_simple W item = Inr vs"
    "scan_loop_simple W items out2 qs = (out', Inr ps')"
    "if vs = [] then qs = ps else \<exists>r. plugin_entry_simple pd vs = Inr r \<and> qs = dict_set item r ps"
proof -
  note eq = assms(2) [unfolded scan_loop_simple_selected [OF assms(1)]]
  from eq obtain bs pd out2 vs where
    rd: "read_bytes W [item, ''plugin.json''] = Some bs" and
    js: "json_loads W bs = Some pd" and
    cv: "collect_versions_simple W [item] pd (out @ [''Processing plugin: '' @ item]) = (out2, Inr vs)" and
    rest: "(if vs \<noteq> [] then
               (case plugin_entry_simple pd vs of
                  Inl e \<Rightarrow> (out2, Inl e)
                | Inr r \<Rightarrow> scan_loop_simple W items out2 (dict_set item r ps))
              else scan_loop_simple W items out2 ps) = (out', Inr ps')"
    by (auto split: option.splits prod.splits sum.splits)
  have m: "manifest_of W item = Inr pd"
    using rd js by (simp add: manifest_of_def)
  have "snd (collect_versions_simple W [item] pd []) = Inr vs"
    using collect_versions_simple_result [of W "[item]" pd "out @ [''Processing plugin: '' @ item]"] cv
    by simp
  then have v: "valid_versions_simple W item = Inr vs"
    using m by (simp add: valid_versions_simple_def)
  show thesis
  proof (cases "vs = []")
    case True
    then have "scan_loop_simple W items out2 ps = (out', Inr ps')" using rest by simp
    then show ?thesis using that [OF m v, of out2 ps] True by simp
  next
    case False
    then obtain r where
      pe: "plugin_entry_simple pd vs = Inr r" and
      l: "scan_loop_simple W items out2 (dict_set item r ps) = (out', Inr ps')"
      using rest by (auto split: sum.splits)
    show ?thesis using that [OF m v l] False pe by simp
  qed
qed

text \<open>Every record of the map is the record of its directory.\<close>

lemma scan_loop_simple_records:
  "scan_loop_simple W items out ps = (out', Inr ps') \<Longrightarrow>
   (\<forall>p \<in> set ps. \<exists>pd vs. manifest_of W (fst p) = Inr pd \<and> valid_versions_simple W (fst p) = Inr vs \<and>
                     vs \<noteq> [] \<and> plugin_entry_simple pd vs = Inr (snd p)) \<Longrightarrow>
   (\<forall>p \<in> set ps'. \<exists>pd vs. manifest_of W (fst p) = Inr pd \<and> valid_versions_simple W (fst p) = Inr vs \<and>
                     vs \<noteq> [] \<and> plugin_entry_simple pd vs = Inr (snd p))"
proof (induction items arbitrary: out ps)
  case Nil
  then show ?case by simp
next
  case (Cons item items)
  show ?case
  proof (cases "selected_simple W item")
    case False
    then have "scan_loop_simple W items out ps = (out', Inr ps')"
      using Cons.prems(1) by (simp only: scan_loop_simple_skip [OF False])
    then show ?thesis using Cons.IH Cons.prems(2) by blast
  next
    case True
    from True Cons.prems(1) show ?thesis
    proof (cases rule: scan_loop_simple_step)
      case (1 pd vs out2 qs)
      have "\<forall>p \<in> set qs. \<exists>pd vs. manifest_of W (fst p) = Inr pd \<and> valid_versions_simple W (fst p) = Inr vs \<and>
                     vs \<noteq> [] \<and> plugin_entry_simple pd vs = Inr (snd p)"
      proof (cases "vs = []")
        case True
        then show ?thesis using 1(4) Cons.prems(2) by simp
      next
        case False
        then obtain r where r: "plugin_entry_simple pd vs = Inr r" "qs = dict_set item r ps"
          using 1(4) by auto
        show ?thesis
        proof
          fix p assume "p \<in> set qs"
          then have "p = (item, r) \<or> p \<in> set ps"
            using set_dict_set [of item r ps] r(2) by auto
          then show "\<exists>pd vs. manifest_of W (fst p) = Inr pd \<and> valid_versions_simple W (fst p) = Inr vs \<and>
                     vs \<noteq> [] \<and> plugin_entry_simple pd vs = Inr (snd p)"
            using 1(1,2) False r(1) Cons.prems(2) by auto
        qed
      qed
      then show ?thesis using Cons.IH [OF 1(3)] by blast
    qed
  qed
qed

lemma scan_loop_simple_keys_grow:
  "scan_loop_simple W items out ps = (out', Inr ps') \<Longrightarrow> set (map fst ps) \<subseteq> set (map fst ps')"
proof (induction items arbitrary: out ps)
  case Nil
  then show ?case by simp
next
  case (Cons item items)
  show ?case
  proof (cases "selected_simple W item")
    case False
    then have "scan_loop_simple W items out ps = (out', Inr ps')"
      using Cons.prems(1) by (simp only: scan_loop_simple_skip [OF False])
    then show ?thesis using Cons.IH by blast
  next
    case True
    from True Cons.prems(1) show ?thesis
    proof (cases rule: scan_loop_simple_step)
      case (1 pd vs out2 qs)
      have "fst ` set ps \<subseteq> fst ` set qs"
      proof (cases "vs = []")
        case True
        then show ?thesis using 1(4) by simp
      next
        case False
        then obtain r where "qs = dict_set item r ps" using 1(4) by auto
        then show ?thesis by (simp add: set_keys_dict_set subset_insertI)
      qed
      then have "set (map fst ps) \<subseteq> set (map fst qs)"
        by simp
      then show ?thesis using Cons.IH [OF 1(3)] by blast
    qed
  qed
qed

lemma scan_loop_simple_enters:
  "scan_loop_simple W items out ps = (out', Inr ps') \<Longrightarrow> d \<in> set items \<Longrightarrow>
   selected_simple W d \<Longrightarrow> valid_versions_simple W d = Inr vs \<Longrightarrow> vs \<noteq> [] \<Longrightarrow>
   d \<in> set (map fst ps')"
proof (induction items arbitrary: out ps)
  case Nil
  then show ?case by simp
next
  case (Cons item items)
  show ?case
  proof (cases "selected_simple W item")
    case False
    then have l: "scan_loop_simple W items out ps = (out', Inr ps')"
      using Cons.prems(1) by (simp only: scan_loop_simple_skip [OF False])
    have "d \<in> set items" using Cons.prems(2,3) False by auto
    then show ?thesis using Cons.IH [OF l _ Cons.prems(3,4,5)] by blast
  next
    case True
    from True Cons.prems(1) show ?thesis
    proof (cases rule: scan_loop_simple_step)
      case (1 pd vs' out2 qs)
      show ?thesis
      proof (cases "d = item")
        case True
        then have "vs' = vs" using 1(2) Cons.prems(4) by simp
        then have "d \<in> set (map fst qs)"
          using 1(4) Cons.prems(5) True by (auto simp: set_keys_dict_set)
        then show ?thesis using scan_loop_simple_keys_grow [OF 1(3)] by blast
      next
        case False
        then have "d \<in> set items" using Cons.prems(2) by simp
        then show ?thesis using Cons.IH [OF 1(3) _ Cons.prems(3,4,5)] by blast
      qed
    qed
  qed
qed


lemma scan_loop_gen_step:
  assumes "selected_gen W n"
    and "scan_loop_gen W (n # ns) ps = Inr ps'"
  obtains pd r where
    "manifest_of W n = Inr pd" "process_plugin_gen W [n] pd = Inr r"
    "scan_loop_gen W ns (dict_set n r ps) = Inr ps'"
proof -
  note eq = assms(2) [unfolded scan_loop_gen_selected [OF assms(1)]]
  from eq obtain bs pd r where
    rd: "read_bytes W [n, ''plugin.json''] = Some bs" and
    js: "json_loads W bs = Some pd" and
    pp: "process_plugin_gen W [n] pd = Inr r" and
    rest: "scan_loop_gen W ns (dict_set n r ps) = Inr ps'"
    by (auto simp: and_then_Inr_iff split: option.splits)
  have m: "manifest_of W n = Inr pd"
    using rd js by (simp add: manifest_of_def)
  show thesis by (rule that [OF m pp rest])
qed

lemma scan_loop_gen_records:
  "scan_loop_gen W ns ps = Inr ps' \<Longrightarrow>
   (\<forall>p \<in> set ps. \<exists>pd. manifest_of W (fst p) = Inr pd \<and> process_plugin_gen W [fst p] pd = Inr (snd p)) \<Longrightarrow>
   (\<forall>p \<in> set ps'. \<exists>pd. manifest_of W (fst p) = Inr pd \<and> process_plugin_gen W [fst p] pd = Inr (snd p))"
proof (induction ns arbitrary: ps)
  case Nil
  then show ?case by simp
next
  case (Cons n ns)
  show ?case
  proof (cases "selected_gen W n")
    case False
    then have "scan_loop_gen W ns ps = Inr ps'"
      using Cons.prems(1) by (simp only: scan_loop_gen_skip [OF False])
    then show ?thesis using Cons.IH Cons.prems(2) by blast
  next
    case True
    from True Cons.prems(1) show ?thesis
    proof (cases rule: scan_loop_gen_step)
      case (1 pd r)
      have "\<forall>p \<in> set (dict_set n r ps).
              \<exists>pd. manifest_of W (fst p) = Inr pd \<and> process_plugin_gen W [fst p] pd = Inr (snd p)"
      proof
        fix p assume "p \<in> set (dict_set n r ps)"
        then have "p = (n, r) \<or> p \<in> set ps"
          using set_dict_set [of n r ps] by auto
        then show "\<exists>pd. manifest_of W (fst p) = Inr pd \<and> process_plugin_gen W [fst p] pd = Inr (snd p)"
          using 1(1,2) Cons.prems(2) by auto
      qed
      then show ?thesis using Cons.IH [OF 1(3)] by blast
    qed
  qed
qed

lemma main_gen_detail:
  assumes "main_gen W t1 t2 = (out, Inr fs)" and "scan_plugins_gen W = Inr ps"
  shows "map_of fs [''api'', ''plugins'', k] = map_option PluginDetail (map_of ps k)"
proof -
  have fs: "fs = generate_api_files t2 ps
                   (dict_set [''registry.yml''] (RegistryYml (generate_registry t1 ps)) [])"
    using assms by (simp add: main_gen_def)
  show ?thesis
    unfolding fs by (rule files_detail [OF scan_plugins_gen_distinct [OF assms(2)]])
qed

lemma main_simple_detail:
  assumes "main_simple W t1 t2 = (out, Inr fs)" and "scan_plugins_simple W = (printed, Inr ps)"
  shows "map_of fs [''api'', ''plugins'', k] = map_option PluginDetail (map_of ps k)"
proof (cases "ps = []")
  case True
  then have "fs = []"
    using assms by (simp add: main_simple_def Let_def)
  then show ?thesis using True by simp
next
  case False
  then have fs: "fs = generate_api_files t2 ps
                   (dict_set [''registry.yml''] (RegistryYml (generate_registry t1 ps)) [])"
    using assms by (simp add: main_simple_def Let_def)
  show ?thesis
    unfolding fs by (rule files_detail [OF scan_plugins_simple_distinct [OF assms(2)]])
qed

lemma entry_of_plugin_summary: "entry_of_plugin d r (summary_entry (d, r))"
  by (simp add: entry_of_plugin_def summary_entry_def)

lemma in_all_outputs_of_map:
  assumes "registry_plugins_of fs = ps" and "discovery_of fs = map summary_entry ps"
    and "\<And>k. map_of fs [''api'', ''plugins'', k] = map_option PluginDetail (map_of ps k)"
    and "map_of ps d = Some r"
  shows "in_all_outputs fs d r"
proof -
  have "(d, r) \<in> set ps" using assms(4) by (rule map_of_SomeD)
  then have "summary_entry (d, r) \<in> set (discovery_of fs)"
    using assms(2) by auto
  then have "list_ex (entry_of_plugin d r) (discovery_of fs)"
    using entry_of_plugin_summary [of d r] unfolding list_ex_iff by blast
  then show ?thesis
    using assms(1,3,4) by (simp add: in_all_outputs_def)
qed


section \<open>Runs on a tree whose directory times differ\<close>

lemma calculate_checksum_mtime [simp]:
  "calculate_checksum (W\<lparr>mtime_iso := m\<rparr>) p = calculate_checksum W p"
  by (simp add: calculate_checksum_def hexdigest_def cong: option.case_cong)

lemma st_size_mtime [simp]: "st_size (W\<lparr>mtime_iso := m\<rparr>) p = st_size W p"
  by (simp add: st_size_def)

lemma py_str_mtime [simp]: "py_str (W\<lparr>mtime_iso := m\<rparr>) v = py_str W v"
  by (cases v) simp_all

lemma binary_name_gen_mtime [simp]:
  "binary_name_gen (W\<lparr>mtime_iso := m\<rparr>) pd os_name arch = binary_name_gen W pd os_name arch"
  by (simp add: binary_name_gen_def cong: json.case_cong)

lemma platform_step_gen_mtime [simp]:
  "platform_step_gen (W\<lparr>mtime_iso := m\<rparr>) vd pd p acc = platform_step_gen W vd pd p acc"
  by (simp add: platform_step_gen_def cong: if_cong)

lemma platform_loop_gen_mtime [simp]:
  "platform_loop_gen (W\<lparr>mtime_iso := m\<rparr>) vd pd pl acc = platform_loop_gen W vd pd pl acc"
proof (induction pl arbitrary: acc)
  case Nil
  then show ?case by simp
next
  case (Cons p pl)
  have "platform_loop_gen (W\<lparr>mtime_iso := m\<rparr>) vd pd pl = platform_loop_gen W vd pd pl"
    by (rule ext) (rule Cons.IH)
  then show ?case by simp
qed

lemma frontend_checksum_gen_mtime [simp]:
  "frontend_checksum_gen (W\<lparr>mtime_iso := m\<rparr>) vd e = frontend_checksum_gen W vd e"
  by (simp add: frontend_checksum_gen_def cong: if_cong)

lemma map_sum_and_then:
  "map_sum id h (and_then a f) = and_then a (\<lambda>x. map_sum id h (f x))"
  by (cases a) simp_all

lemma process_release_gen_mtime:
  "map_sum id (map_option without_time) (process_release_gen (W\<lparr>mtime_iso := m\<rparr>) vd pd)
     = map_sum id (map_option without_time) (process_release_gen W vd pd)"
  by (simp add: process_release_gen_def map_sum_and_then without_time_def
        if_distrib [of "map_sum id (map_option without_time)"] cong: if_cong)


lemma and_then_related:
  assumes "map_sum id h a = map_sum id h b"
    and "\<And>x y. a = Inr x \<Longrightarrow> b = Inr y \<Longrightarrow> h x = h y \<Longrightarrow> map_sum id k (f x) = map_sum id k (g y)"
  shows "map_sum id k (and_then a f) = map_sum id k (and_then b g)"
proof (cases a)
  case (Inl e)
  then have "b = Inl e" using assms(1) by (cases b) simp_all
  then show ?thesis using Inl by simp
next
  case (Inr x)
  then obtain y where y: "b = Inr y" "h x = h y"
    using assms(1) by (cases b) simp_all
  then show ?thesis using Inr assms(2) by simp
qed

lemma py_insort_without_time:
  "map without_time (py_insort version x ys) = py_insort version (without_time x) (map without_time ys)"
  by (induction ys) (simp_all add: without_time_def)

lemma foldr_insort_without_time:
  "map without_time (foldr (py_insort version) xs [])
     = foldr (py_insort version) (map without_time xs) []"
  by (induction xs) (simp_all add: py_insort_without_time)

lemma sort_reverse_without_time:
  "map without_time (sort_reverse version xs) = sort_reverse version (map without_time xs)"
proof -
  have "map without_time (sort_reverse version xs)
          = rev (map without_time (foldr (py_insort version) (rev xs) []))"
    by (simp add: sort_reverse_def rev_map)
  also have "\<dots> = rev (foldr (py_insort version) (map without_time (rev xs)) [])"
    by (simp only: foldr_insort_without_time)
  also have "\<dots> = sort_reverse version (map without_time xs)"
    by (simp add: sort_reverse_def rev_map)
  finally show ?thesis .
qed

lemma release_loop_gen_mtime:
  "map without_time rs' = map without_time rs \<Longrightarrow>
   map_sum id (map without_time) (release_loop_gen (W\<lparr>mtime_iso := m\<rparr>) rd pd ns rs')
     = map_sum id (map without_time) (release_loop_gen W rd pd ns rs)"
proof (induction ns arbitrary: rs rs')
  case Nil
  then show ?case by simp
next
  case (Cons n ns)
  show ?case
  proof (cases "is_dir W (rd @ [n])")
    case False
    then show ?thesis using Cons.IH [OF Cons.prems] by simp
  next
    case True
    have "map_sum id (map without_time)
            (and_then (process_release_gen (W\<lparr>mtime_iso := m\<rparr>) (rd @ [n]) pd) (\<lambda>release.
               release_loop_gen (W\<lparr>mtime_iso := m\<rparr>) rd pd ns
                 (case release of None \<Rightarrow> rs' | Some r \<Rightarrow> rs' @ [r])))
          = map_sum id (map without_time)
            (and_then (process_release_gen W (rd @ [n]) pd) (\<lambda>release.
               release_loop_gen W rd pd ns
                 (case release of None \<Rightarrow> rs | Some r \<Rightarrow> rs @ [r])))"
    proof (rule and_then_related [OF process_release_gen_mtime])
      fix x y :: "version_record option"
      assume "map_option without_time x = map_option without_time y"
      then have "map without_time (case x of None \<Rightarrow> rs' | Some r \<Rightarrow> rs' @ [r])
                   = map without_time (case y of None \<Rightarrow> rs | Some r \<Rightarrow> rs @ [r])"
        using Cons.prems by (cases x; cases y) simp_all
      then show "map_sum id (map without_time)
                   (release_loop_gen (W\<lparr>mtime_iso := m\<rparr>) rd pd ns
                      (case x of None \<Rightarrow> rs' | Some r \<Rightarrow> rs' @ [r]))
                 = map_sum id (map without_time)
                   (release_loop_gen W rd pd ns (case y of None \<Rightarrow> rs | Some r \<Rightarrow> rs @ [r]))"
        by (rule Cons.IH)
    qed
    moreover have "release_loop_gen (W\<lparr>mtime_iso := m\<rparr>) rd pd (n # ns) rs'
        = and_then (process_release_gen (W\<lparr>mtime_iso := m\<rparr>) (rd @ [n]) pd) (\<lambda>release.
               release_loop_gen (W\<lparr>mtime_iso := m\<rparr>) rd pd ns
                 (case release of None \<Rightarrow> rs' | Some r \<Rightarrow> rs' @ [r]))"
      using True by simp
    moreover have "release_loop_gen W rd pd (n # ns) rs
        = and_then (process_release_gen W (rd @ [n]) pd) (\<lambda>release.
               release_loop_gen W rd pd ns
                 (case release of None \<Rightarrow> rs | Some r \<Rightarrow> rs @ [r]))"
      using True by simp
    ultimately show ?thesis by (simp only:)
  qed
qed

lemma collect_releases_gen_mtime:
  "map_sum id (map without_time) (collect_releases_gen (W\<lparr>mtime_iso := m\<rparr>) d pd)
     = map_sum id (map without_time) (collect_releases_gen W d pd)"
  using release_loop_gen_mtime [where rs = "[]" and rs' = "[]" and W = W and m = m]
  by (simp add: collect_releases_gen_def Let_def split: option.splits)

lemma process_plugin_gen_mtime:
  "map_sum id plugin_without_times (process_plugin_gen (W\<lparr>mtime_iso := m\<rparr>) d pd)
     = map_sum id plugin_without_times (process_plugin_gen W d pd)"
  unfolding process_plugin_gen_def
proof (rule and_then_related [OF collect_releases_gen_mtime])
  fix x y :: "version_record list"
  assume "map without_time x = map without_time y"
  then have "map without_time (sort_reverse version x) = map without_time (sort_reverse version y)"
    by (simp add: sort_reverse_without_time)
  then show "map_sum id plugin_without_times
       (and_then (info_item pd ''name'') (\<lambda>v_name.
        and_then (info_item pd ''description'') (\<lambda>v_description.
        and_then (info_item pd ''author'') (\<lambda>v_author.
        and_then (info_item pd ''license'') (\<lambda>v_license.
        and_then (info_get pd ''repository'' JNull) (\<lambda>v_repository.
        and_then (info_get pd ''homepage'' JNull) (\<lambda>v_homepage.
        and_then (info_get pd ''tags'' (JArr [])) (\<lambda>v_tags.
        and_then (info_get pd ''category'' (JStr ''utilities'')) (\<lambda>v_category.
        and_then (getitem pd ''compatibility'') (\<lambda>compat.
        and_then (getitem compat ''min_delve_version'') (\<lambda>v_min.
        Inr \<lparr>name = v_name, description = v_description, author = v_author,
             license = v_license, repository = v_repository, homepage = v_homepage,
             tags = v_tags, category = v_category, min_delve_version = v_min,
             versions = sort_reverse version x\<rparr>)))))))))))
     = map_sum id plugin_without_times
       (and_then (info_item pd ''name'') (\<lambda>v_name.
        and_then (info_item pd ''description'') (\<lambda>v_description.
        and_then (info_item pd ''author'') (\<lambda>v_author.
        and_then (info_item pd ''license'') (\<lambda>v_license.
        and_then (info_get pd ''repository'' JNull) (\<lambda>v_repository.
        and_then (info_get pd ''homepage'' JNull) (\<lambda>v_homepage.
        and_then (info_get pd ''tags'' (JArr [])) (\<lambda>v_tags.
        and_then (info_get pd ''category'' (JStr ''utilities'')) (\<lambda>v_category.
        and_then (getitem pd ''compatibility'') (\<lambda>compat.
        and_then (getitem compat ''min_delve_version'') (\<lambda>v_min.
        Inr \<lparr>name = v_name, description = v_description, author = v_author,
             license = v_license, repository = v_repository, homepage = v_homepage,
             tags = v_tags, category = v_category, min_delve_version = v_min,
             versions = sort_reverse version y\<rparr>)))))))))))"
    by (simp add: map_sum_and_then plugin_without_times_def)
qed

lemma map_without_times_dict_set:
  "map_without_times (dict_set k r ps) = dict_set k (plugin_without_times r) (map_without_times ps)"
  by (induction ps) (simp_all add: map_without_times_def)

lemma scan_loop_gen_mtime:
  "map_without_times ps' = map_without_times ps \<Longrightarrow>
   map_sum id map_without_times (scan_loop_gen (W\<lparr>mtime_iso := m\<rparr>) ns ps')
     = map_sum id map_without_times (scan_loop_gen W ns ps)"
proof (induction ns arbitrary: ps ps')
  case Nil
  then show ?case by simp
next
  case (Cons n ns)
  have sel: "selected_gen (W\<lparr>mtime_iso := m\<rparr>) n = selected_gen W n"
    by (simp add: selected_gen_def)
  show ?case
  proof (cases "selected_gen W n")
    case False
    then have False': "\<not> selected_gen (W\<lparr>mtime_iso := m\<rparr>) n" using sel by simp
    show ?thesis
      unfolding scan_loop_gen_skip [OF False] scan_loop_gen_skip [OF False']
      by (rule Cons.IH [OF Cons.prems])
  next
    case True
    then have True': "selected_gen (W\<lparr>mtime_iso := m\<rparr>) n" using sel by simp
    have step: "map_sum id map_without_times
                  (and_then (process_plugin_gen (W\<lparr>mtime_iso := m\<rparr>) [n] pd) (\<lambda>r.
                     scan_loop_gen (W\<lparr>mtime_iso := m\<rparr>) ns (dict_set n r ps')))
                = map_sum id map_without_times
                  (and_then (process_plugin_gen W [n] pd) (\<lambda>r.
                     scan_loop_gen W ns (dict_set n r ps)))" for pd
    proof (rule and_then_related [OF process_plugin_gen_mtime])
      fix x y :: plugin_record
      assume "plugin_without_times x = plugin_without_times y"
      then have "map_without_times (dict_set n x ps') = map_without_times (dict_set n y ps)"
        using Cons.prems by (simp add: map_without_times_dict_set)
      then show "map_sum id map_without_times (scan_loop_gen (W\<lparr>mtime_iso := m\<rparr>) ns (dict_set n x ps'))
                 = map_sum id map_without_times (scan_loop_gen W ns (dict_set n y ps))"
        by (rule Cons.IH)
    qed
    show ?thesis
    proof (cases "read_bytes W [n, ''plugin.json'']")
      case None
      then show ?thesis
        by (simp add: scan_loop_gen_selected [OF True] scan_loop_gen_selected [OF True'] del: scan_loop_gen.simps)
    next
      case (Some bs)
      show ?thesis
      proof (cases "json_loads W bs")
        case None
        then show ?thesis
          using Some
          by (simp add: scan_loop_gen_selected [OF True] scan_loop_gen_selected [OF True'] del: scan_loop_gen.simps)
      next
        case (Some pd)
        have "scan_loop_gen (W\<lparr>mtime_iso := m\<rparr>) (n # ns) ps'
                = and_then (process_plugin_gen (W\<lparr>mtime_iso := m\<rparr>) [n] pd) (\<lambda>r.
                     scan_loop_gen (W\<lparr>mtime_iso := m\<rparr>) ns (dict_set n r ps'))"
          using \<open>read_bytes W [n, ''plugin.json''] = Some bs\<close> Some
          by (simp add: scan_loop_gen_selected [OF True'] del: scan_loop_gen.simps)
        moreover have "scan_loop_gen W (n # ns) ps
                = and_then (process_plugin_gen W [n] pd) (\<lambda>r.
                     scan_loop_gen W ns (dict_set n r ps))"
          using \<open>read_bytes W [n, ''plugin.json''] = Some bs\<close> Some
          by (simp add: scan_loop_gen_selected [OF True] del: scan_loop_gen.simps)
        ultimately show ?thesis using step [of pd] by (simp only:)
      qed
    qed
  qed
qed

lemma scan_plugins_gen_mtime:
  "map_sum id map_without_times (scan_plugins_gen (W\<lparr>mtime_iso := m\<rparr>))
     = map_sum id map_without_times (scan_plugins_gen W)"
  using scan_loop_gen_mtime [where ps = "[]" and ps' = "[]" and W = W and m = m]
  by (simp add: scan_plugins_gen_def split: option.splits)


lemma platform_step_simple_mtime [simp]:
  "platform_step_simple (W\<lparr>mtime_iso := m\<rparr>) vd pid p acc = platform_step_simple W vd pid p acc"
  by (simp add: platform_step_simple_def Let_def cong: if_cong)

lemma platform_loop_simple_mtime [simp]:
  "platform_loop_simple (W\<lparr>mtime_iso := m\<rparr>) vd pid pl acc = platform_loop_simple W vd pid pl acc"
proof (induction pl arbitrary: acc)
  case Nil
  then show ?case by simp
next
  case (Cons p pl)
  have "platform_loop_simple (W\<lparr>mtime_iso := m\<rparr>) vd pid pl = platform_loop_simple W vd pid pl"
    by (rule ext) (rule Cons.IH)
  then show ?case by simp
qed

lemma frontend_simple_mtime [simp]:
  "frontend_simple (W\<lparr>mtime_iso := m\<rparr>) vd = frontend_simple W vd"
  by (simp add: frontend_simple_def Let_def cong: if_cong)

lemma process_version_simple_mtime:
  "map_sum id (map_prod id (map_option without_time)) (process_version_simple (W\<lparr>mtime_iso := m\<rparr>) vd pd)
     = map_sum id (map_prod id (map_option without_time)) (process_version_simple W vd pd)"
  by (simp add: process_version_simple_def map_sum_and_then without_time_def
        if_distrib [of "map_sum id (map_prod id (map_option without_time))"] cong: if_cong)

lemma version_loop_simple_mtime:
  "map without_time vs' = map without_time vs \<Longrightarrow>
   map_prod id (map_sum id (map without_time))
     (version_loop_simple (W\<lparr>mtime_iso := m\<rparr>) rd pd ns out vs')
   = map_prod id (map_sum id (map without_time)) (version_loop_simple W rd pd ns out vs)"
proof (induction ns arbitrary: out vs vs')
  case Nil
  then show ?case by simp
next
  case (Cons n ns)
  show ?case
  proof (cases "is_dir W (rd @ [n])")
    case False
    then show ?thesis using Cons.IH [OF Cons.prems] by simp
  next
    case True
    note rel = process_version_simple_mtime [where W = W and m = m and vd = "rd @ [n]" and pd = pd]
    show ?thesis
    proof (cases "process_version_simple W (rd @ [n]) pd")
      case (Inl e)
      then have "process_version_simple (W\<lparr>mtime_iso := m\<rparr>) (rd @ [n]) pd = Inl e"
        using rel by (cases "process_version_simple (W\<lparr>mtime_iso := m\<rparr>) (rd @ [n]) pd") simp_all
      then show ?thesis using Inl True by simp
    next
      case (Inr pr)
      obtain printed vd where pr: "pr = (printed, vd)" by (cases pr)
      obtain vd' where
        pr': "process_version_simple (W\<lparr>mtime_iso := m\<rparr>) (rd @ [n]) pd = Inr (printed, vd')" and
        vd': "map_option without_time vd' = map_option without_time vd"
        using rel Inr pr
        by (cases "process_version_simple (W\<lparr>mtime_iso := m\<rparr>) (rd @ [n]) pd") auto
      have acc: "map without_time (case vd' of None \<Rightarrow> vs' | Some v \<Rightarrow> vs' @ [v])
                   = map without_time (case vd of None \<Rightarrow> vs | Some v \<Rightarrow> vs @ [v])"
        using vd' Cons.prems by (cases vd; cases vd') simp_all
      show ?thesis
        using Cons.IH [OF acc, of "out @ printed"] True Inr pr pr' by simp
    qed
  qed
qed

lemma collect_versions_simple_mtime:
  "map_prod id (map_sum id (map without_time)) (collect_versions_simple (W\<lparr>mtime_iso := m\<rparr>) d pd out)
     = map_prod id (map_sum id (map without_time)) (collect_versions_simple W d pd out)"
  using version_loop_simple_mtime [where vs = "[]" and vs' = "[]" and W = W and m = m]
  by (simp add: collect_versions_simple_def Let_def split: option.splits)

lemma plugin_entry_simple_related:
  assumes "map without_time vs' = map without_time vs"
  shows "map_sum id plugin_without_times (plugin_entry_simple pd vs')
           = map_sum id plugin_without_times (plugin_entry_simple pd vs)"
proof -
  have "map without_time (sort_reverse version vs') = map without_time (sort_reverse version vs)"
    using assms by (simp add: sort_reverse_without_time)
  then show ?thesis
    by (simp add: plugin_entry_simple_def map_sum_and_then plugin_without_times_def)
qed


lemma scan_loop_simple_mtime:
  "map_without_times ps' = map_without_times ps \<Longrightarrow>
   map_prod id (map_sum id map_without_times)
     (scan_loop_simple (W\<lparr>mtime_iso := m\<rparr>) items out ps')
   = map_prod id (map_sum id map_without_times) (scan_loop_simple W items out ps)"
proof (induction items arbitrary: out ps ps')
  case Nil
  then show ?case by simp
next
  case (Cons n ns)
  let ?W' = "W\<lparr>mtime_iso := m\<rparr>"
  let ?out1 = "out @ [''Processing plugin: '' @ n]"
  have sel: "selected_simple ?W' n = selected_simple W n"
    by (simp add: selected_simple_def)
  show ?case
  proof (cases "selected_simple W n")
    case False
    then have False': "\<not> selected_simple ?W' n" using sel by simp
    show ?thesis
      unfolding scan_loop_simple_skip [OF False] scan_loop_simple_skip [OF False']
      by (rule Cons.IH [OF Cons.prems])
  next
    case True
    then have True': "selected_simple ?W' n" using sel by simp
    show ?thesis
    proof (cases "read_bytes W [n, ''plugin.json'']")
      case None
      then show ?thesis
        by (simp add: scan_loop_simple_selected [OF True] scan_loop_simple_selected [OF True']
              del: scan_loop_simple.simps)
    next
      case (Some bs)
      note rd = Some
      show ?thesis
      proof (cases "json_loads W bs")
        case None
        then show ?thesis
          using rd
          by (simp add: scan_loop_simple_selected [OF True] scan_loop_simple_selected [OF True']
                del: scan_loop_simple.simps)
      next
        case (Some pd)
        obtain out2 r where c: "collect_versions_simple W [n] pd ?out1 = (out2, r)"
          by (cases "collect_versions_simple W [n] pd ?out1")
        obtain out2' r' where c': "collect_versions_simple ?W' [n] pd ?out1 = (out2', r')"
          by (cases "collect_versions_simple ?W' [n] pd ?out1")
        have rel: "out2' = out2" "map_sum id (map without_time) r' = map_sum id (map without_time) r"
          using collect_versions_simple_mtime [where W = W and m = m and d = "[n]" and pd = pd and out = ?out1]
            c c' by simp_all
        have l': "scan_loop_simple ?W' (n # ns) out ps' =
                    (case r' of
                       Inl e \<Rightarrow> (out2, Inl e)
                     | Inr vs \<Rightarrow>
                         if vs \<noteq> [] then
                           (case plugin_entry_simple pd vs of
                              Inl e \<Rightarrow> (out2, Inl e)
                            | Inr x \<Rightarrow> scan_loop_simple ?W' ns out2 (dict_set n x ps'))
                         else scan_loop_simple ?W' ns out2 ps')"
          using rd Some c' rel(1)
          by (simp add: scan_loop_simple_selected [OF True'] del: scan_loop_simple.simps
                split: sum.splits)
        have l: "scan_loop_simple W (n # ns) out ps =
                    (case r of
                       Inl e \<Rightarrow> (out2, Inl e)
                     | Inr vs \<Rightarrow>
                         if vs \<noteq> [] then
                           (case plugin_entry_simple pd vs of
                              Inl e \<Rightarrow> (out2, Inl e)
                            | Inr x \<Rightarrow> scan_loop_simple W ns out2 (dict_set n x ps))
                         else scan_loop_simple W ns out2 ps)"
          using rd Some c
          by (simp add: scan_loop_simple_selected [OF True] del: scan_loop_simple.simps
                split: sum.splits)
        show ?thesis
        proof (cases r)
          case (Inl e)
          then have "r' = Inl e" using rel(2) by (cases r') simp_all
          then show ?thesis unfolding l l' using Inl by simp
        next
          case (Inr vs)
          then obtain vs' where r': "r' = Inr vs'" and vs': "map without_time vs' = map without_time vs"
            using rel(2) by (cases r') simp_all
          show ?thesis
          proof (cases "vs = []")
            case True
            then have "vs' = []" using vs' by simp
            then show ?thesis
              unfolding l l' using Inr r' True Cons.IH [OF Cons.prems, of out2] by simp
          next
            case False
            then have ne': "vs' \<noteq> []" using vs' by auto
            note pe = plugin_entry_simple_related [OF vs', of pd]
            show ?thesis
            proof (cases "plugin_entry_simple pd vs")
              case (Inl e)
              then have "plugin_entry_simple pd vs' = Inl e"
                using pe by (cases "plugin_entry_simple pd vs'") simp_all
              then show ?thesis
                unfolding l l' using Inr r' False ne' Inl by simp
            next
              case inr: (Inr x)
              then obtain x' where x': "plugin_entry_simple pd vs' = Inr x'"
                "plugin_without_times x' = plugin_without_times x"
                using pe by (cases "plugin_entry_simple pd vs'") simp_all
              have "map_without_times (dict_set n x' ps') = map_without_times (dict_set n x ps)"
                using x'(2) Cons.prems by (simp add: map_without_times_dict_set)
              from Cons.IH [OF this, of out2] show ?thesis
                unfolding l l' using Inr r' False ne' inr x'(1) by simp
            qed
          qed
        qed
      qed
    qed
  qed
qed

lemma scan_plugins_simple_mtime:
  "map_prod id (map_sum id map_without_times) (scan_plugins_simple (W\<lparr>mtime_iso := m\<rparr>))
     = map_prod id (map_sum id map_without_times) (scan_plugins_simple W)"
  using scan_loop_simple_mtime [where ps = "[]" and ps' = "[]" and W = W and m = m]
  by (simp add: scan_plugins_simple_def split: option.splits)

lemma main_gen_plugins:
  "map_sum id registry_plugins_of (snd (main_gen W t1 t2)) = scan_plugins_gen W"
  "map_sum id detail_files_of (snd (main_gen W t1 t2)) = scan_plugins_gen W"
proof -
  show "map_sum id registry_plugins_of (snd (main_gen W t1 t2)) = scan_plugins_gen W"
  proof (cases "scan_plugins_gen W")
    case (Inl e)
    then show ?thesis by (simp add: main_gen_def)
  next
    case (Inr ps)
    then have "main_gen W t1 t2 = (fst (main_gen W t1 t2), Inr (projr (snd (main_gen W t1 t2))))"
      by (simp add: main_gen_def)
    from main_gen_files [OF this] Inr show ?thesis
      by (cases "snd (main_gen W t1 t2)") (auto simp: main_gen_def)
  qed
  show "map_sum id detail_files_of (snd (main_gen W t1 t2)) = scan_plugins_gen W"
  proof (cases "scan_plugins_gen W")
    case (Inl e)
    then show ?thesis by (simp add: main_gen_def)
  next
    case (Inr ps)
    then have "main_gen W t1 t2 = (fst (main_gen W t1 t2), Inr (projr (snd (main_gen W t1 t2))))"
      by (simp add: main_gen_def)
    from main_gen_files [OF this] Inr show ?thesis
      by (cases "snd (main_gen W t1 t2)") (auto simp: main_gen_def)
  qed
qed

lemma main_simple_plugins:
  "map_sum id registry_plugins_of (snd (main_simple W t1 t2)) = snd (scan_plugins_simple W)"
  "map_sum id detail_files_of (snd (main_simple W t1 t2)) = snd (scan_plugins_simple W)"
proof -
  obtain printed r where scan: "scan_plugins_simple W = (printed, r)"
    by (cases "scan_plugins_simple W")
  have "map_sum id registry_plugins_of (snd (main_simple W t1 t2)) = r \<and>
        map_sum id detail_files_of (snd (main_simple W t1 t2)) = r"
  proof (cases r)
    case (Inl e)
    then show ?thesis using scan by (simp add: main_simple_def Let_def)
  next
    case (Inr ps)
    have "\<exists>out fs. main_simple W t1 t2 = (out, Inr fs)"
      using scan Inr by (cases "ps = []") (simp_all add: main_simple_def Let_def)
    then obtain out fs where run: "main_simple W t1 t2 = (out, Inr fs)" by blast
    from main_simple_files [OF run] scan Inr
    have "registry_plugins_of fs = ps" "detail_files_of fs = ps" by simp_all
    then show ?thesis using run Inr by simp
  qed
  then show "map_sum id registry_plugins_of (snd (main_simple W t1 t2)) = snd (scan_plugins_simple W)"
    "map_sum id detail_files_of (snd (main_simple W t1 t2)) = snd (scan_plugins_simple W)"
    using scan by simp_all
qed


lemma generate_registry_stats:
  "distinct (map fst ps) \<Longrightarrow>
   total_plugins (stats (generate_registry now ps)) = card (fst ` set (plugins (generate_registry now ps))) \<and>
   total_versions (stats (generate_registry now ps))
     = sum_list (map (\<lambda>p. length (versions (snd p))) (plugins (generate_registry now ps))) \<and>
   most_popular (stats (generate_registry now ps)) = map fst (plugins (generate_registry now ps))"
  using distinct_card [of "map fst ps"] by (simp add: generate_registry_def)


section \<open>The claims\<close>

text \<open>
  C1. The claim: the version list of every emitted plugin record is in strictly
  descending order of semantic version, so that the releases 1.2.0, 1.10.0 and 1.9.0
  come out as 1.10.0, 1.9.0, 1.2.0. Both scripts sort on the version string instead:
  on the tree with these three releases each emits 1.9.0, 1.2.0, 1.10.0, which is not
  descending in semantic version.
\<close>

theorem C1_versions_in_string_order:
  "map_sum id (map (\<lambda>p. (fst p, map version (versions (snd p))))) (scan_plugins_gen world_three_versions)
     = Inr [(''sample-plugin'', [''1.9.0'', ''1.2.0'', ''1.10.0''])] \<and>
   map_sum id (map (\<lambda>p. (fst p, map version (versions (snd p))))) (snd (scan_plugins_simple world_three_versions))
     = Inr [(''sample-plugin'', [''1.9.0'', ''1.2.0'', ''1.10.0''])] \<and>
   \<not> semver_descending [''1.9.0'', ''1.2.0'', ''1.10.0''] \<and>
   semver_descending [''1.10.0'', ''1.9.0'', ''1.2.0'']"
  by code_simp

text \<open>
  C2, as amended. In simple-registry-generator.py a plugin whose scan yields no valid
  version record is left out of all three outputs: after a run that finishes, every
  record of the registry's plugin map and every detail file has a non-empty version
  list, and every entry of the discovery list has a latest version.
  (generate-registry.py keeps such a plugin, with an empty version list.)
\<close>

theorem C2_simple_omits_empty_plugins:
  assumes "main_simple W t1 t2 = (out, Inr fs)"
  shows "list_all (\<lambda>p. versions (snd p) \<noteq> []) (registry_plugins_of fs) \<and>
         list_all (\<lambda>e. latest_version e \<noteq> None) (discovery_of fs) \<and>
         list_all (\<lambda>p. versions (snd p) \<noteq> []) (detail_files_of fs)"
proof -
  obtain lines ps where scan: "scan_plugins_simple W = (lines, Inr ps)"
    and outs: "registry_plugins_of fs = ps" "discovery_of fs = map summary_entry ps"
      "detail_files_of fs = ps"
    using main_simple_files [OF assms] by blast
  have ne: "\<forall>p \<in> set ps. versions (snd p) \<noteq> []"
    by (rule scan_plugins_simple_nonempty_versions [OF scan])
  have "latest_version (summary_entry p) \<noteq> None" if "p \<in> set ps" for p
    using ne that by (cases p) (auto simp: summary_entry_def split: list.splits)
  then show ?thesis
    using ne outs by (simp add: list_all_iff)
qed

text \<open>
  The run on the tree with a released plugin and a plugin without releases finishes
  and keeps the released plugin only.
\<close>

theorem C2_simple_omits_empty_plugins_witness:
  "run_ok (main_simple world_two_plugins [] []) \<and>
   map fst (registry_plugins_of (run_files (main_simple world_two_plugins [] []))) = [''sample-plugin''] \<and>
   list_all (\<lambda>p. versions (snd p) \<noteq> []) (registry_plugins_of (run_files (main_simple world_two_plugins [] []))) \<and>
   list_all (\<lambda>e. latest_version e \<noteq> None) (discovery_of (run_files (main_simple world_two_plugins [] []))) \<and>
   list_all (\<lambda>p. versions (snd p) \<noteq> []) (detail_files_of (run_files (main_simple world_two_plugins [] [])))"
proof -
  have ok: "run_ok (main_simple world_two_plugins [] [])"
    and keys: "map fst (registry_plugins_of (run_files (main_simple world_two_plugins [] []))) = [''sample-plugin'']"
    by code_simp+
  have run: "main_simple world_two_plugins [] [] =
               (fst (main_simple world_two_plugins [] []), Inr (run_files (main_simple world_two_plugins [] [])))"
    using ok by (cases "main_simple world_two_plugins [] []") (auto simp: run_ok_def run_files_def split: sum.splits)
  show ?thesis
    using ok keys C2_simple_omits_empty_plugins [OF run] by simp
qed

text \<open>
  The claim as stated fails for generate-registry.py: on the same tree the plugin
  without releases is in the registry's plugin map, in the discovery list (with a null
  latest version) and in a detail file, with an empty version list.
\<close>

theorem C2_gen_keeps_empty_plugin:
  "map (\<lambda>p. (fst p, length (versions (snd p)))) (registry_plugins_of (run_files (main_gen world_two_plugins [] [])))
     = [(''sample-plugin'', 1), (''empty-plugin'', 0)] \<and>
   map (\<lambda>e. (entry_id e, latest_version e)) (discovery_of (run_files (main_gen world_two_plugins [] [])))
     = [(''sample-plugin'', Some ''1.0.0''), (''empty-plugin'', None)] \<and>
   map (\<lambda>p. (fst p, length (versions (snd p)))) (detail_files_of (run_files (main_gen world_two_plugins [] [])))
     = [(''sample-plugin'', 1), (''empty-plugin'', 0)]"
  by code_simp




text \<open>
  C3, as amended. In every version record either script returns, the checksum of each
  asset is \<^verbatim>\<open>sha256:\<close> and the hexadecimal SHA-256 digest of the binary the asset's URL
  names (and the size is that file's), and the checksum of the manifest reference is
  that of the plugin's \<^verbatim>\<open>plugin.json\<close>. A frontend block of
  simple-registry-generator.py carries the digest of \<^verbatim>\<open>component.js\<close>; a frontend
  block of generate-registry.py carries the digest of the declared file when the file
  is there and \<^verbatim>\<open>sha256:missing\<close> when it is not. Every digest checksum is
  \<^verbatim>\<open>sha256:\<close> and 64 hexadecimal digits.
\<close>

theorem C3_checksums:
  "(process_release_gen W vd pd = Inr (Some v)
      \<longrightarrow> (\<exists>pid. info_item pd ''id'' = Inr pid \<and> checksums_gen W vd pid v)) \<and>
   (process_version_simple W vd pd = Inr (printed, Some v')
      \<longrightarrow> (\<exists>pid. info_item pd ''id'' = Inr pid \<and> checksums_simple W vd pid v')) \<and>
   (checksum_of W p c \<longrightarrow> well_formed_checksum c)"
proof (intro conjI impI)
  assume "process_release_gen W vd pd = Inr (Some v)"
  then show "\<exists>pid. info_item pd ''id'' = Inr pid \<and> checksums_gen W vd pid v"
  proof (cases rule: process_release_gen_Some)
    case (1 pl found entry cs supported pid s d)
    have a: "list_all (\<lambda>ka. asset_of_file W vd (url_prefix W pid vd) (snd ka)) found"
      by (rule platform_loop_gen_assets [OF 1(1) 1(3)]) simp
    have m: "checksum_of W [py_str W pid, ''plugin.json''] (''sha256:'' @ d)"
      using calculate_checksum_of [OF 1(5)] 1(4) by simp
    have f: "case (case cs of None \<Rightarrow> FrontendNull
                   | Some c \<Rightarrow> if c = [] then FrontendNull
                               else FrontendBlock \<lparr>frontend_entry = entry, frontend_checksum = ''sha256:'' @ c\<rparr>) of
               FrontendBlock b \<Rightarrow>
                 (case frontend_entry b of
                    JStr s \<Rightarrow>
                      if path_exists W (vd @ [s])
                      then checksum_of W (vd @ [s]) (frontend_checksum b)
                      else frontend_checksum b = ''sha256:missing''
                  | _ \<Rightarrow> False)
             | _ \<Rightarrow> True"
      using frontend_checksum_gen_cases [OF 1(2)] calculate_checksum_of
      by (auto split: if_splits)
    have "checksums_gen W vd pid v"
      unfolding checksums_gen_def 1(6) using a m f by simp
    then show ?thesis using 1(3) by blast
  qed
next
  assume "process_version_simple W vd pd = Inr (printed, Some v')"
  then show "\<exists>pid. info_item pd ''id'' = Inr pid \<and> checksums_simple W vd pid v'"
  proof (cases rule: process_version_simple_Some)
    case (1 found compat fe pid s d)
    have a: "list_all (\<lambda>ka. asset_of_file W vd (url_prefix W pid vd) (snd ka)) found"
      by (rule platform_loop_simple_assets [OF 1(3)]) simp
    have m: "checksum_of W [py_str W pid, ''plugin.json''] (''sha256:'' @ d)"
      using calculate_checksum_of [OF 1(5)] 1(2) by simp
    have f: "case fe of
               FrontendBlock b \<Rightarrow>
                 frontend_entry b = JStr ''component.js'' \<and>
                 checksum_of W (vd @ [''component.js'']) (frontend_checksum b)
             | _ \<Rightarrow> True"
      using frontend_simple_cases [OF 1(4)] calculate_checksum_of by auto
    have "checksums_simple W vd pid v'"
      unfolding checksums_simple_def 1(6) using a m f by simp
    then show ?thesis using 1(1) by blast
  qed
next
  assume "checksum_of W p c"
  then show "well_formed_checksum c" by (rule checksum_of_well_formed)
qed


text \<open>The release 1.0.0 of the tree that holds a binary and \<^verbatim>\<open>component.js\<close>.\<close>

theorem C3_checksums_witness:
  "checksums_gen world_frontend_present [''sample-plugin'', ''releases'', ''1.0.0'']
     (JStr ''sample-plugin'')
     (the (projr (process_release_gen world_frontend_present
                    [''sample-plugin'', ''releases'', ''1.0.0''] manifest_with_frontend))) \<and>
   checksums_simple world_frontend_present [''sample-plugin'', ''releases'', ''1.0.0'']
     (JStr ''sample-plugin'')
     (the (snd (projr (process_version_simple world_frontend_present
                    [''sample-plugin'', ''releases'', ''1.0.0''] manifest_with_frontend)))) \<and>
   well_formed_checksum (''sha256:'' @ hex_of_digest (sha256 world_frontend_present [1, 2, 3]))"
proof -
  let ?W = world_frontend_present
  let ?vd = "[''sample-plugin'', ''releases'', ''1.0.0'']"
  let ?m = manifest_with_frontend
  let ?v = "the (projr (process_release_gen ?W ?vd ?m))"
  let ?r = "projr (process_version_simple ?W ?vd ?m)"
  have g: "process_release_gen ?W ?vd ?m = Inr (Some ?v)"
    and s: "process_version_simple ?W ?vd ?m = Inr (fst ?r, Some (the (snd ?r)))"
    and i: "info_item ?m ''id'' = Inr (JStr ''sample-plugin'')"
    and c: "checksum_of ?W (?vd @ [''sample-plugin-linux-amd64''])
              (''sha256:'' @ hex_of_digest (sha256 ?W [1, 2, 3]))"
    by code_simp+
  note th = C3_checksums [of ?W ?vd ?m ?v "fst ?r" "the (snd ?r)"
      "?vd @ [''sample-plugin-linux-amd64'']" "''sha256:'' @ hex_of_digest (sha256 ?W [1, 2, 3])"]
  from th g i have "checksums_gen ?W ?vd (JStr ''sample-plugin'') ?v"
    by (metis sum.inject(2))
  moreover from th s i have "checksums_simple ?W ?vd (JStr ''sample-plugin'') (the (snd ?r))"
    by (metis sum.inject(2))
  moreover from th c have "well_formed_checksum (''sha256:'' @ hex_of_digest (sha256 ?W [1, 2, 3]))"
    by blast
  ultimately show ?thesis by blast
qed

text \<open>
  The claim as stated fails for generate-registry.py: with the declared frontend file
  not there, the frontend checksum is \<^verbatim>\<open>sha256:missing\<close>, which is no digest.
\<close>

theorem C3_missing_is_no_digest:
  "map_sum id (map_option frontend)
     (process_release_gen world_skipped_release [''sample-plugin'', ''releases'', ''1.0.0'']
        manifest_with_frontend)
   = Inr (Some (FrontendBlock \<lparr>frontend_entry = JStr ''component.js'',
                                frontend_checksum = ''sha256:missing''\<rparr>)) \<and>
   \<not> well_formed_checksum ''sha256:missing''"
  by code_simp

text \<open>
  C4, as amended. In generate-registry.py a version record whose manifest declares a
  frontend entry that is not in the release directory carries a frontend block with
  the checksum \<^verbatim>\<open>sha256:missing\<close>. simple-registry-generator.py does not read the
  manifest's declaration: its record has no frontend key when \<^verbatim>\<open>component.js\<close> is not
  in the release directory.
\<close>

theorem C4_missing_frontend:
  "(process_release_gen W vd pd = Inr (Some v) \<and>
    getitem pd ''frontend'' = Inr fsec \<and> getitem fsec ''entry'' = Inr (JStr s) \<and>
    s \<noteq> [] \<and> \<not> path_exists W (vd @ [s])
      \<longrightarrow> frontend v = FrontendBlock \<lparr>frontend_entry = JStr s,
                                        frontend_checksum = ''sha256:missing''\<rparr>) \<and>
   (process_version_simple W vd pd = Inr (printed, Some v') \<and>
    \<not> path_exists W (vd @ [''component.js''])
      \<longrightarrow> frontend v' = FrontendAbsent)"
proof (intro conjI impI)
  assume a: "process_release_gen W vd pd = Inr (Some v) \<and>
    getitem pd ''frontend'' = Inr fsec \<and> getitem fsec ''entry'' = Inr (JStr s) \<and>
    s \<noteq> [] \<and> \<not> path_exists W (vd @ [s])"
  then have d: "dict_get pd ''frontend'' (JObj []) = Inr fsec"
    "dict_get fsec ''entry'' JNull = Inr (JStr s)"
    by (simp_all add: getitem_dict_get)
  have f: "frontend_checksum_gen W vd (JStr s) = Inr (Some ''missing'')"
    using a by (simp add: frontend_checksum_gen_def)
  from a have "process_release_gen W vd pd = Inr (Some v)" by simp
  then show "frontend v = FrontendBlock \<lparr>frontend_entry = JStr s, frontend_checksum = ''sha256:missing''\<rparr>"
    unfolding process_release_gen_def using d f
    by (auto simp: and_then_Inr_iff split: if_splits)
next
  assume a: "process_version_simple W vd pd = Inr (printed, Some v') \<and>
    \<not> path_exists W (vd @ [''component.js''])"
  then have f: "frontend_simple W vd = Inr FrontendAbsent"
    by (simp add: frontend_simple_def)
  from a have "process_version_simple W vd pd = Inr (printed, Some v')" by simp
  then show "frontend v' = FrontendAbsent"
    unfolding process_version_simple_def using f
    by (auto simp: and_then_Inr_iff split: if_splits)
qed

text \<open>The release 1.0.0 of the example tree, whose manifest declares \<^verbatim>\<open>component.js\<close>.\<close>

theorem C4_missing_frontend_witness:
  "map_sum id (map_option frontend)
     (process_release_gen world_skipped_release [''sample-plugin'', ''releases'', ''1.0.0'']
        manifest_with_frontend)
   = Inr (Some (FrontendBlock \<lparr>frontend_entry = JStr ''component.js'',
                                frontend_checksum = ''sha256:missing''\<rparr>))"
proof -
  let ?W = world_skipped_release
  let ?vd = "[''sample-plugin'', ''releases'', ''1.0.0'']"
  let ?m = manifest_with_frontend
  let ?v = "the (projr (process_release_gen ?W ?vd ?m))"
  have h: "process_release_gen ?W ?vd ?m = Inr (Some ?v) \<and>
           getitem ?m ''frontend'' = Inr (JObj [(''entry'', JStr ''component.js'')]) \<and>
           getitem (JObj [(''entry'', JStr ''component.js'')]) ''entry'' = Inr (JStr ''component.js'') \<and>
           ''component.js'' \<noteq> [] \<and> \<not> path_exists ?W (?vd @ [''component.js''])"
    by code_simp
  note th = C4_missing_frontend [of ?W ?vd ?m ?v "JObj [(''entry'', JStr ''component.js'')]" "''component.js''"]
  from th h have "frontend ?v = FrontendBlock \<lparr>frontend_entry = JStr ''component.js'',
                                                frontend_checksum = ''sha256:missing''\<rparr>"
    by blast
  moreover from h have "process_release_gen ?W ?vd ?m = Inr (Some ?v)" by blast
  ultimately show ?thesis
    by (metis map_sum.simps(2) option.simps(9))
qed

text \<open>
  The claim as stated fails for simple-registry-generator.py: on the same release the
  record has no frontend key, although the manifest declares the entry.
\<close>

theorem C4_simple_omits_frontend:
  "getitem manifest_with_frontend ''frontend'' = Inr (JObj [(''entry'', JStr ''component.js'')]) \<and>
   \<not> path_exists world_skipped_release [''sample-plugin'', ''releases'', ''1.0.0'', ''component.js''] \<and>
   map_sum id (\<lambda>r. map_option frontend (snd r))
     (process_version_simple world_skipped_release [''sample-plugin'', ''releases'', ''1.0.0'']
        manifest_with_frontend)
   = Inr (Some FrontendAbsent)"
  by code_simp

text \<open>
  C6. After a run of either script that finishes, every plugin directory the scanner
  selects that has at least one valid version is in the three outputs with one and the
  same record, whose version list is the sorted list of its valid versions: its name
  is a key of the plugin map of \<^verbatim>\<open>registry.yml\<close>, the discovery list of
  \<^verbatim>\<open>api/plugins.json\<close> has an entry whose id is that name and whose fields are the
  record's, and \<^verbatim>\<open>api/plugins/<id>\<close> holds the full record.
\<close>

theorem C6_plugin_in_all_outputs:
  "(main_gen W t1 t2 = (out, Inr fs) \<and> listdir W [] = Some items \<and> d \<in> set items \<and>
    selected_gen W d \<and> valid_versions_gen W d = Inr vs \<and> vs \<noteq> []
      \<longrightarrow> (\<exists>r. versions r = sort_reverse version vs \<and> in_all_outputs fs d r)) \<and>
   (main_simple W t1 t2 = (out', Inr fs') \<and> listdir W [] = Some items \<and> d \<in> set items \<and>
    selected_simple W d \<and> valid_versions_simple W d = Inr vs' \<and> vs' \<noteq> []
      \<longrightarrow> (\<exists>r. versions r = sort_reverse version vs' \<and> in_all_outputs fs' d r))"
proof (intro conjI impI)
  assume a: "main_gen W t1 t2 = (out, Inr fs) \<and> listdir W [] = Some items \<and> d \<in> set items \<and>
    selected_gen W d \<and> valid_versions_gen W d = Inr vs \<and> vs \<noteq> []"
  then obtain ps where scan: "scan_plugins_gen W = Inr ps"
    and outs: "registry_plugins_of fs = ps" "discovery_of fs = map summary_entry ps"
    using main_gen_files [of W t1 t2 out fs] by blast
  have loop: "scan_loop_gen W items [] = Inr ps"
    using a scan by (auto simp: scan_plugins_gen_def)
  have "d \<in> set (map fst ps)"
    using scan_loop_gen_keys [OF loop] a by simp
  then obtain r where in_ps: "(d, r) \<in> set ps" by auto
  then have m: "map_of ps d = Some r"
    using scan_plugins_gen_distinct [OF scan] by simp
  obtain pd where pd: "manifest_of W d = Inr pd" "process_plugin_gen W [d] pd = Inr r"
    using scan_loop_gen_records [OF loop] in_ps by fastforce
  obtain rs where rs: "collect_releases_gen W [d] pd = Inr rs" "versions r = sort_reverse version rs"
    using process_plugin_gen_versions [OF pd(2)] by blast
  have "rs = vs"
    using a pd(1) rs(1) by (simp add: valid_versions_gen_def)
  then have v: "versions r = sort_reverse version vs" using rs(2) by simp
  from a have run: "main_gen W t1 t2 = (out, Inr fs)" by simp
  have "in_all_outputs fs d r"
    by (rule in_all_outputs_of_map [OF outs main_gen_detail [OF run scan] m])
  then show "\<exists>r. versions r = sort_reverse version vs \<and> in_all_outputs fs d r"
    using v by blast
next
  assume a: "main_simple W t1 t2 = (out', Inr fs') \<and> listdir W [] = Some items \<and> d \<in> set items \<and>
    selected_simple W d \<and> valid_versions_simple W d = Inr vs' \<and> vs' \<noteq> []"
  then obtain printed ps where scan: "scan_plugins_simple W = (printed, Inr ps)"
    and outs: "registry_plugins_of fs' = ps" "discovery_of fs' = map summary_entry ps"
    using main_simple_files [of W t1 t2 out' fs'] by blast
  have loop: "scan_loop_simple W items [] [] = (printed, Inr ps)"
    using a scan by (auto simp: scan_plugins_simple_def)
  have "d \<in> set (map fst ps)"
    using scan_loop_simple_enters [OF loop] a by blast
  then obtain r where in_ps: "(d, r) \<in> set ps" by auto
  then have m: "map_of ps d = Some r"
    using scan_plugins_simple_distinct [OF scan] by simp
  obtain pd vs where pd: "valid_versions_simple W d = Inr vs" "plugin_entry_simple pd vs = Inr r"
    using scan_loop_simple_records [OF loop] in_ps by fastforce
  have "vs = vs'" using a pd(1) by simp
  then have v: "versions r = sort_reverse version vs'"
    using plugin_entry_simple_versions [OF pd(2)] by simp
  from a have run: "main_simple W t1 t2 = (out', Inr fs')" by simp
  have "in_all_outputs fs' d r"
    by (rule in_all_outputs_of_map [OF outs main_simple_detail [OF run scan] m])
  then show "\<exists>r. versions r = sort_reverse version vs' \<and> in_all_outputs fs' d r"
    using v by blast
qed


text \<open>The released plugin of the tree with two plugins, in both scripts.\<close>

theorem C6_plugin_in_all_outputs_witness:
  "(\<exists>r. versions r = sort_reverse version (projr (valid_versions_gen world_two_plugins ''sample-plugin'')) \<and>
        in_all_outputs (run_files (main_gen world_two_plugins [] [])) ''sample-plugin'' r) \<and>
   (\<exists>r. versions r = sort_reverse version (projr (valid_versions_simple world_two_plugins ''sample-plugin'')) \<and>
        in_all_outputs (run_files (main_simple world_two_plugins [] [])) ''sample-plugin'' r) \<and>
   map entry_id (discovery_of (run_files (main_gen world_two_plugins [] [])))
     = [''sample-plugin'', ''empty-plugin''] \<and>
   map entry_id (discovery_of (run_files (main_simple world_two_plugins [] []))) = [''sample-plugin'']"
proof -
  let ?W = world_two_plugins
  let ?d = "''sample-plugin''"
  let ?items = "[''sample-plugin'', ''empty-plugin'']"
  have g: "main_gen ?W [] [] = (fst (main_gen ?W [] []), Inr (run_files (main_gen ?W [] []))) \<and>
           listdir ?W [] = Some ?items \<and> ?d \<in> set ?items \<and> selected_gen ?W ?d \<and>
           valid_versions_gen ?W ?d = Inr (projr (valid_versions_gen ?W ?d)) \<and>
           projr (valid_versions_gen ?W ?d) \<noteq> []"
    by code_simp
  have s: "main_simple ?W [] [] = (fst (main_simple ?W [] []), Inr (run_files (main_simple ?W [] []))) \<and>
           listdir ?W [] = Some ?items \<and> ?d \<in> set ?items \<and> selected_simple ?W ?d \<and>
           valid_versions_simple ?W ?d = Inr (projr (valid_versions_simple ?W ?d)) \<and>
           projr (valid_versions_simple ?W ?d) \<noteq> []"
    by code_simp
  note th = C6_plugin_in_all_outputs [of ?W "[]" "[]" "fst (main_gen ?W [] [])"
      "run_files (main_gen ?W [] [])" ?items ?d "projr (valid_versions_gen ?W ?d)"
      "fst (main_simple ?W [] [])" "run_files (main_simple ?W [] [])"
      "projr (valid_versions_simple ?W ?d)"]
  have ids: "map entry_id (discovery_of (run_files (main_gen ?W [] [])))
               = [''sample-plugin'', ''empty-plugin''] \<and>
             map entry_id (discovery_of (run_files (main_simple ?W [] []))) = [''sample-plugin'']"
    by code_simp
  from th g s ids show ?thesis by blast
qed

text \<open>
  C7, as amended. Each scanner goes into exactly the entries of the root that are
  directories, are not passed over by name and hold \<^verbatim>\<open>plugin.json\<close>; every other entry
  is skipped without effect: no error, no output line. generate-registry.py passes
  over the name \<^verbatim>\<open>.github\<close> only; simple-registry-generator.py passes over every name
  that starts with a dot. A finished run of generate-registry.py has exactly the
  selected directories as keys; a finished run of simple-registry-generator.py has
  printed a line for each selected directory and has keys among them.
\<close>

theorem C7_scanner_selection:
  "scan_plugins_gen W =
     (case listdir W [] of
        None \<Rightarrow> Inl OSError
      | Some items \<Rightarrow> scan_loop_gen W (filter (selected_gen W) items) []) \<and>
   scan_plugins_simple W =
     (case listdir W [] of
        None \<Rightarrow> ([], Inl OSError)
      | Some items \<Rightarrow> scan_loop_simple W (filter (selected_simple W) items) [] []) \<and>
   (listdir W [] = Some items \<and> scan_plugins_gen W = Inr ps
      \<longrightarrow> set (map fst ps) = set (filter (selected_gen W) items)) \<and>
   (listdir W [] = Some items \<and> scan_plugins_simple W = (out, Inr ps')
      \<longrightarrow> set (map fst ps') \<subseteq> set (filter (selected_simple W) items) \<and>
          list_all (\<lambda>d. ''Processing plugin: '' @ d \<in> set out) (filter (selected_simple W) items))"
proof (intro conjI impI)
  show "scan_plugins_gen W =
     (case listdir W [] of
        None \<Rightarrow> Inl OSError
      | Some items \<Rightarrow> scan_loop_gen W (filter (selected_gen W) items) [])"
    using scan_loop_gen_filter by (simp add: scan_plugins_gen_def split: option.splits)
  show "scan_plugins_simple W =
     (case listdir W [] of
        None \<Rightarrow> ([], Inl OSError)
      | Some items \<Rightarrow> scan_loop_simple W (filter (selected_simple W) items) [] [])"
    using scan_loop_simple_filter by (simp add: scan_plugins_simple_def split: option.splits)
next
  assume "listdir W [] = Some items \<and> scan_plugins_gen W = Inr ps"
  then have "scan_loop_gen W items [] = Inr ps"
    by (auto simp: scan_plugins_gen_def)
  from scan_loop_gen_keys [OF this] show "set (map fst ps) = set (filter (selected_gen W) items)"
    by simp
next
  assume a: "listdir W [] = Some items \<and> scan_plugins_simple W = (out, Inr ps')"
  then have "scan_loop_simple W items [] [] = (out, Inr ps')"
    by (auto simp: scan_plugins_simple_def)
  note l = scan_loop_simple_lines [OF this]
  from l show "set (map fst ps') \<subseteq> set (filter (selected_simple W) items)"
    by auto
  from l show "list_all (\<lambda>d. ''Processing plugin: '' @ d \<in> set out) (filter (selected_simple W) items)"
    by (auto simp: list_all_iff)
qed

text \<open>The root with a hidden directory, \<^verbatim>\<open>.github\<close>, a directory without manifest and a file.\<close>

theorem C7_scanner_selection_witness:
  "map (selected_gen world_hidden_dir) [''.hidden'', ''.github'', ''docs'', ''README.md'', ''sample-plugin'']
     = [True, False, False, False, True] \<and>
   map (selected_simple world_hidden_dir) [''.hidden'', ''.github'', ''docs'', ''README.md'', ''sample-plugin'']
     = [False, False, False, False, True] \<and>
   set (map fst (projr (scan_plugins_gen world_hidden_dir))) = set [''.hidden'', ''sample-plugin''] \<and>
   set (map fst (projr (snd (scan_plugins_simple world_hidden_dir)))) \<subseteq> set [''sample-plugin''] \<and>
   list_all (\<lambda>d. ''Processing plugin: '' @ d \<in> set (fst (scan_plugins_simple world_hidden_dir)))
     [''sample-plugin'']"
proof -
  let ?W = world_hidden_dir
  let ?items = "[''.hidden'', ''.github'', ''docs'', ''README.md'', ''sample-plugin'']"
  have l: "listdir ?W [] = Some ?items"
    and g: "scan_plugins_gen ?W = Inr (projr (scan_plugins_gen ?W))"
    and s: "scan_plugins_simple ?W = (fst (scan_plugins_simple ?W), Inr (projr (snd (scan_plugins_simple ?W))))"
    and fg: "filter (selected_gen ?W) ?items = [''.hidden'', ''sample-plugin'']"
    and fs: "filter (selected_simple ?W) ?items = [''sample-plugin'']"
    and mg: "map (selected_gen ?W) ?items = [True, False, False, False, True]"
    and ms: "map (selected_simple ?W) ?items = [False, False, False, False, True]"
    by code_simp+
  note th = C7_scanner_selection [of ?W ?items "projr (scan_plugins_gen ?W)"
      "fst (scan_plugins_simple ?W)" "projr (snd (scan_plugins_simple ?W))"]
  from th l g have "set (map fst (projr (scan_plugins_gen ?W))) = set (filter (selected_gen ?W) ?items)"
    by blast
  moreover from th l s have
    "set (map fst (projr (snd (scan_plugins_simple ?W)))) \<subseteq> set (filter (selected_simple ?W) ?items) \<and>
     list_all (\<lambda>d. ''Processing plugin: '' @ d \<in> set (fst (scan_plugins_simple ?W)))
       (filter (selected_simple ?W) ?items)"
    by blast
  ultimately show ?thesis
    unfolding fg fs using mg ms by blast
qed

text \<open>
  The claim as stated fails for generate-registry.py: it goes into the hidden directory
  \<^verbatim>\<open>.hidden\<close>, which holds a manifest, and emits it as a plugin.
\<close>

theorem C7_gen_enters_hidden_directory:
  "starts_with_dot ''.hidden'' \<and>
   map_sum id (map fst) (scan_plugins_gen world_hidden_dir) = Inr [''.hidden'', ''sample-plugin''] \<and>
   map_sum id (map fst) (snd (scan_plugins_simple world_hidden_dir)) = Inr [''sample-plugin'']"
  by code_simp

text \<open>
  C8. In the registry document that \<open>generate_registry\<close> assembles, \<open>total_plugins\<close> is
  the number of entries of the document's plugin map, \<open>total_versions\<close> is the sum of
  the lengths of the version lists of its plugin records, and \<open>most_popular\<close> is the
  list of the keys of the map. In the \<^verbatim>\<open>registry.yml\<close> a finished run of either script
  writes, the keys are distinct, so that \<open>total_plugins\<close> is also the number of keys.
\<close>

theorem C8_registry_stats:
  "total_plugins (stats (generate_registry now ps)) = length (plugins (generate_registry now ps)) \<and>
   total_versions (stats (generate_registry now ps))
     = sum_list (map (\<lambda>p. length (versions (snd p))) (plugins (generate_registry now ps))) \<and>
   most_popular (stats (generate_registry now ps)) = map fst (plugins (generate_registry now ps)) \<and>
   (main_gen W t1 t2 = (out, Inr fs)
      \<longrightarrow> (\<exists>doc. registry_of fs = Some doc \<and> stats_agree doc)) \<and>
   (main_simple W t1 t2 = (out', Inr fs') \<and> fs' \<noteq> []
      \<longrightarrow> (\<exists>doc. registry_of fs' = Some doc \<and> stats_agree doc))"
proof (intro conjI impI)
  assume a: "main_gen W t1 t2 = (out, Inr fs)"
  then obtain ps where scan: "scan_plugins_gen W = Inr ps"
    by (auto simp: main_gen_def split: sum.splits)
  have fs: "fs = generate_api_files t2 ps
                   (dict_set [''registry.yml''] (RegistryYml (generate_registry t1 ps)) [])"
    using a scan by (simp add: main_gen_def)
  have "registry_of fs = Some (generate_registry t1 ps)"
    unfolding fs registry_of_def files_registry_yml by simp
  moreover have "stats_agree (generate_registry t1 ps)"
    using generate_registry_stats [OF scan_plugins_gen_distinct [OF scan]]
    by (simp add: stats_agree_def generate_registry_def)
  ultimately show "\<exists>doc. registry_of fs = Some doc \<and> stats_agree doc" by blast
next
  assume a: "main_simple W t1 t2 = (out', Inr fs') \<and> fs' \<noteq> []"
  then obtain printed ps where scan: "scan_plugins_simple W = (printed, Inr ps)"
    by (auto simp: main_simple_def Let_def split: prod.splits sum.splits)
  have "ps \<noteq> []"
    using a scan by (auto simp: main_simple_def Let_def)
  then have fs: "fs' = generate_api_files t2 ps
                   (dict_set [''registry.yml''] (RegistryYml (generate_registry t1 ps)) [])"
    using a scan by (simp add: main_simple_def Let_def)
  have "registry_of fs' = Some (generate_registry t1 ps)"
    unfolding fs registry_of_def files_registry_yml by simp
  moreover have "stats_agree (generate_registry t1 ps)"
    using generate_registry_stats [OF scan_plugins_simple_distinct [OF scan]]
    by (simp add: stats_agree_def generate_registry_def)
  ultimately show "\<exists>doc. registry_of fs' = Some doc \<and> stats_agree doc" by blast
qed (simp_all add: generate_registry_def)

text \<open>The runs on the tree with two plugins.\<close>

theorem C8_registry_stats_witness:
  "(\<exists>doc. registry_of (run_files (main_gen world_two_plugins [] [])) = Some doc \<and> stats_agree doc) \<and>
   (\<exists>doc. registry_of (run_files (main_simple world_two_plugins [] [])) = Some doc \<and> stats_agree doc) \<and>
   map_option (\<lambda>doc. (total_plugins (stats doc), total_versions (stats doc), most_popular (stats doc)))
     (registry_of (run_files (main_gen world_two_plugins [] [])))
     = Some (2, 1, [''sample-plugin'', ''empty-plugin''])"
proof -
  let ?W = world_two_plugins
  have g: "main_gen ?W [] [] = (fst (main_gen ?W [] []), Inr (run_files (main_gen ?W [] [])))"
    and s: "main_simple ?W [] [] = (fst (main_simple ?W [] []), Inr (run_files (main_simple ?W [] []))) \<and>
            run_files (main_simple ?W [] []) \<noteq> []"
    and v: "map_option (\<lambda>doc. (total_plugins (stats doc), total_versions (stats doc), most_popular (stats doc)))
              (registry_of (run_files (main_gen ?W [] [])))
            = Some (2, 1, [''sample-plugin'', ''empty-plugin''])"
    by code_simp+
  note th = C8_registry_stats [of "[]" "[]" ?W "[]" "[]" "fst (main_gen ?W [] [])"
      "run_files (main_gen ?W [] [])" "fst (main_simple ?W [] [])" "run_files (main_simple ?W [] [])"]
  from th g s v show ?thesis by blast
qed

text \<open>
  C9. The checksum of a file is a function of its bytes: two computations on the same
  bytes, in one run or in two, give the same string, the hexadecimal digest of the
  bytes. Hence a second run of either script on the same tree, whatever the directory
  times and the clock then are, writes the same plugin map and the same detail files
  as the first, time stamps apart: the same assets and manifest references with the
  same checksums, or it stops with the same error.
\<close>

theorem C9_checksums_reproducible:
  "(read_bytes W p = Some bs \<and> read_bytes W' p' = Some bs \<and> sha256 W' = sha256 W
      \<longrightarrow> calculate_checksum W' p' = calculate_checksum W p \<and>
          calculate_checksum W p = Inr (hex_of_digest (sha256 W bs))) \<and>
   map_sum id (\<lambda>fs. map_without_times (registry_plugins_of fs)) (snd (main_gen (W\<lparr>mtime_iso := m\<rparr>) t1' t2'))
     = map_sum id (\<lambda>fs. map_without_times (registry_plugins_of fs)) (snd (main_gen W t1 t2)) \<and>
   map_sum id (\<lambda>fs. map_without_times (detail_files_of fs)) (snd (main_gen (W\<lparr>mtime_iso := m\<rparr>) t1' t2'))
     = map_sum id (\<lambda>fs. map_without_times (detail_files_of fs)) (snd (main_gen W t1 t2)) \<and>
   map_sum id (\<lambda>fs. map_without_times (registry_plugins_of fs)) (snd (main_simple (W\<lparr>mtime_iso := m\<rparr>) t1' t2'))
     = map_sum id (\<lambda>fs. map_without_times (registry_plugins_of fs)) (snd (main_simple W t1 t2)) \<and>
   map_sum id (\<lambda>fs. map_without_times (detail_files_of fs)) (snd (main_simple (W\<lparr>mtime_iso := m\<rparr>) t1' t2'))
     = map_sum id (\<lambda>fs. map_without_times (detail_files_of fs)) (snd (main_simple W t1 t2))"
proof -
  have comp: "map_sum id (\<lambda>fs. map_without_times (f fs)) x = map_sum id map_without_times (map_sum id f x)"
    for f :: "files \<Rightarrow> plugin_map" and x :: "error + files"
    by (cases x) simp_all
  have simple: "map_sum id map_without_times (snd (scan_plugins_simple (W\<lparr>mtime_iso := m\<rparr>)))
                  = map_sum id map_without_times (snd (scan_plugins_simple W))"
    using scan_plugins_simple_mtime [where W = W and m = m]
    by (cases "scan_plugins_simple (W\<lparr>mtime_iso := m\<rparr>)"; cases "scan_plugins_simple W") simp
  have first: "read_bytes W p = Some bs \<and> read_bytes W' p' = Some bs \<and> sha256 W' = sha256 W
      \<longrightarrow> calculate_checksum W' p' = calculate_checksum W p \<and>
          calculate_checksum W p = Inr (hex_of_digest (sha256 W bs))"
    by (simp add: calculate_checksum_eq)
  show ?thesis
    unfolding comp main_gen_plugins main_simple_plugins
    using first scan_plugins_gen_mtime [where W = W and m = m] simple by blast
qed

text \<open>Two binaries with the same bytes in two of the example trees.\<close>

theorem C9_checksums_reproducible_witness:
  "calculate_checksum world_three_versions [''sample-plugin'', ''releases'', ''1.2.0'', ''sample-plugin-linux-amd64'']
     = calculate_checksum world_two_plugins [''sample-plugin'', ''releases'', ''1.0.0'', ''sample-plugin-linux-amd64''] \<and>
   calculate_checksum world_two_plugins [''sample-plugin'', ''releases'', ''1.0.0'', ''sample-plugin-linux-amd64'']
     = Inr (hex_of_digest (sha256 world_two_plugins [1, 2, 3]))"
proof -
  let ?W = world_two_plugins and ?W' = world_three_versions
  let ?p = "[''sample-plugin'', ''releases'', ''1.0.0'', ''sample-plugin-linux-amd64'']"
  let ?p' = "[''sample-plugin'', ''releases'', ''1.2.0'', ''sample-plugin-linux-amd64'']"
  have r: "read_bytes ?W ?p = Some [1, 2, 3]" and r': "read_bytes ?W' ?p' = Some [1, 2, 3]"
    by code_simp+
  have h: "sha256 ?W' = sha256 ?W"
    by (simp add: world_three_versions_def world_two_plugins_def example_world_def)
  from C9_checksums_reproducible [of ?W ?p "[1, 2, 3]" ?W' ?p'] r r' h
  show ?thesis by blast
qed

text \<open>
  C10. The discovery list written to \<^verbatim>\<open>api/plugins.json\<close> has one entry per plugin of
  the map, in the map's order, and the \<open>latest_version\<close> of an entry is the version
  string of the first element of that plugin's version list, or null (\<open>None\<close>) when
  the list is empty.
\<close>

theorem C10_latest_version:
  "\<exists>d. map_of (generate_api_files now ps fs) [''api'', ''plugins.json''] = Some (PluginsJson d) \<and>
       map (\<lambda>e. (entry_id e, latest_version e)) (plugin_list d)
         = map (\<lambda>p. (fst p, case versions (snd p) of [] \<Rightarrow> None | v # _ \<Rightarrow> Some (version v))) ps"
  by (simp add: generate_api_files_def Let_def plugins_json_kept map_of_dict_set summary_entry_def split_def)

end
